theory Spec2Isabelle
  imports Main "HOL-Library.Sublist" "HOL-Library.AList" "HOL-Library.Char_ord"
    "HOL-Library.List_Lexorder"
begin

section \<open>Python text primitives used by \<open>import_refs.py\<close>\<close>

text \<open>
  Strings are character lists. The character classes are the ASCII ones the patterns
  of the script spell out: \<open>[0-9]\<close>, \<open>(1|2)\<close>, \<open>[ivxlcdmIVXLCDM]\<close>, \<open>[a-z\_]\<close>, and
  the white space that \<open>str.strip\<close> and \<open>\s\<close> remove.
\<close>

definition is_digit :: "char \<Rightarrow> bool" where
  "is_digit c = (c \<in> set ''0123456789'')"

definition is_year_lead :: "char \<Rightarrow> bool" where
  "is_year_lead c = (c = CHR ''1'' \<or> c = CHR ''2'')"

definition is_roman :: "char \<Rightarrow> bool" where
  "is_roman c = (c \<in> set ''ivxlcdmIVXLCDM'')"

definition is_name_char :: "char \<Rightarrow> bool" where
  "is_name_char c = (c \<in> set ''abcdefghijklmnopqrstuvwxyz_'')"

definition is_space :: "char \<Rightarrow> bool" where
  "is_space c = (c \<in> set [CHR '' '', CHR 0x09, CHR 0x0A, CHR 0x0B, CHR 0x0C, CHR 0x0D])"

text \<open>\<open>s.strip()\<close>: white space removed at both ends.\<close>

definition strip :: "string \<Rightarrow> string" where
  "strip s = rev (dropWhile is_space (rev (dropWhile is_space s)))"

text \<open>The value of a decimal digit and of a run of digits, as \<open>int\<close> reads them.\<close>

definition digit_val :: "char \<Rightarrow> int" where
  "digit_val c = int (of_char c) - 48"

definition digits_val :: "string \<Rightarrow> int" where
  "digits_val ds = foldl (\<lambda>n c. 10 * n + digit_val c) 0 ds"

text \<open>
  \<open>int(text)\<close>: surrounding white space is ignored, one sign is allowed, and at least one
  digit must follow and nothing else; any other text raises \<open>ValueError\<close>, which is
  \<open>None\<close> here.
\<close>

definition py_int :: "string \<Rightarrow> int option" where
  "py_int s =
     (let t = strip s;
          neg = (t \<noteq> [] \<and> hd t = CHR ''-'');
          ds = (if t \<noteq> [] \<and> (hd t = CHR ''-'' \<or> hd t = CHR ''+'') then tl t else t)
      in if ds \<noteq> [] \<and> list_all is_digit ds
         then Some (if neg then - digits_val ds else digits_val ds)
         else None)"

text \<open>
  \<open>text.split(sep)\<close> for a one-character separator: the pieces between the separators,
  one piece more than there are separators.
\<close>

fun split_on :: "char \<Rightarrow> string \<Rightarrow> string list" where
  "split_on sep [] = [[]]"
| "split_on sep (c # cs) =
     (if c = sep then [] # split_on sep cs
      else (case split_on sep cs of
              [] \<Rightarrow> [[c]]
            | p # ps \<Rightarrow> (c # p) # ps))"

text \<open>
  \<open>text.split(sep, 1)\<close> where the separator occurs: the text before the first separator
  and everything after it.
\<close>

definition split_once :: "char \<Rightarrow> string \<Rightarrow> string \<times> string" where
  "split_once sep s = (takeWhile (\<lambda>c. c \<noteq> sep) s, tl (dropWhile (\<lambda>c. c \<noteq> sep) s))"

section \<open>The regular expressions\<close>

text \<open>
  \<open>pattern.search(text)\<close> tries the pattern at every position from the left and returns
  the first match. A pattern is given by its matcher at the start of a text.
\<close>

fun re_search :: "(string \<Rightarrow> 'a option) \<Rightarrow> string \<Rightarrow> 'a option" where
  "re_search m [] = m []"
| "re_search m (c # cs) =
     (case m (c # cs) of
        Some r \<Rightarrow> Some r
      | None \<Rightarrow> re_search m cs)"

text \<open>
  \<open>YEAR_PATTERN = (?P<year>(1|2)[0-9]{3})\<close> at the start of a text: the group \<open>year\<close>.
\<close>

fun YEAR_PATTERN :: "string \<Rightarrow> string option" where
  "YEAR_PATTERN (a # b # c # d # rest) =
     (if is_year_lead a \<and> is_digit b \<and> is_digit c \<and> is_digit d
      then Some [a, b, c, d] else None)"
| "YEAR_PATTERN _ = None"

text \<open>
  \<open>PREF_YEAR_PATTERN = \[(?P<year>(1|2)[0-9]{3})(\-[0-9]+)?\]\<close> at the start of a text.
  After the year either the closing bracket follows at once, or a dash, the longest run
  of digits (which must not be empty) and the closing bracket. Backtracking finds
  nothing else: a shorter run of digits is followed by a digit, not by the bracket.
\<close>

fun PREF_YEAR_PATTERN :: "string \<Rightarrow> string option" where
  "PREF_YEAR_PATTERN [] = None"
| "PREF_YEAR_PATTERN (x # rest) =
     (if x \<noteq> CHR ''['' then None
      else (case YEAR_PATTERN rest of
              None \<Rightarrow> None
            | Some y \<Rightarrow>
                (case drop 4 rest of
                   [] \<Rightarrow> None
                 | e # t \<Rightarrow>
                     if e = CHR '']'' then Some y
                     else if e = CHR ''-''
                       \<and> takeWhile is_digit t \<noteq> []
                       \<and> take 1 (dropWhile is_digit t) = '']''
                     then Some y
                     else None)))"

text \<open>
  Lines 267-277: the numeric year of a year text. A year in brackets is preferred over
  the first four-digit number.
\<close>

definition extract_year :: "string \<Rightarrow> int option" where
  "extract_year year =
     (case re_search PREF_YEAR_PATTERN year of
        Some y \<Rightarrow> Some (digits_val y)
      | None \<Rightarrow>
          (case re_search YEAR_PATTERN year of
             Some y \<Rightarrow> Some (digits_val y)
           | None \<Rightarrow> None))"

text \<open>
  \<open>ROMANPAGESPATTERNra = (?P<roman>[ivxlcdmIVXLCDM]+)\+(?P<arabic>[0-9]+)\<close> at the start of
  a text: the longest run of Roman letters, a plus sign, the longest run of digits. The
  result is the pair of groups (roman, arabic).
\<close>

definition ROMANPAGESPATTERNra :: "string \<Rightarrow> (string \<times> string) option" where
  "ROMANPAGESPATTERNra t =
     (let roman = takeWhile is_roman t; rest = dropWhile is_roman t
      in if roman \<noteq> [] \<and> take 1 rest = ''+'' \<and> takeWhile is_digit (tl rest) \<noteq> []
         then Some (roman, takeWhile is_digit (tl rest))
         else None)"

text \<open>\<open>ROMANPAGESPATTERNar = (?P<arabic>[0-9]+)\+(?P<roman>[ivxlcdmIVXLCDM]+)\<close>.\<close>

definition ROMANPAGESPATTERNar :: "string \<Rightarrow> (string \<times> string) option" where
  "ROMANPAGESPATTERNar t =
     (let arabic = takeWhile is_digit t; rest = dropWhile is_digit t
      in if arabic \<noteq> [] \<and> take 1 rest = ''+'' \<and> takeWhile is_roman (tl rest) \<noteq> []
         then Some (takeWhile is_roman (tl rest), arabic)
         else None)"

text \<open>
  \<open>DOCTYPE_PATTERN = (?P<name>[a-z\_]+)\s*(\((?P<comment>[^\)]+)\))?\s*(\;|$)\<close> at the
  start of a text: the group \<open>name\<close> and the text after the match. The name is the longest
  run of name characters; a comment in parentheses is skipped when it is complete and not
  empty; then a semicolon or the end of the text must follow.
\<close>

definition DOCTYPE_PATTERN :: "string \<Rightarrow> (string \<times> string) option" where
  "DOCTYPE_PATTERN t =
     (let name = takeWhile is_name_char t;
          r1 = dropWhile is_space (dropWhile is_name_char t);
          inner = takeWhile (\<lambda>c. c \<noteq> CHR '')'') (tl r1);
          after = dropWhile (\<lambda>c. c \<noteq> CHR '')'') (tl r1);
          r2 = (if take 1 r1 = ''('' \<and> inner \<noteq> [] \<and> after \<noteq> []
                then dropWhile is_space (tl after) else r1)
      in if name = [] then None
         else if r2 = [] then Some (name, [])
         else if hd r2 = CHR '';'' then Some (name, tl r2)
         else None)"

lemma DOCTYPE_PATTERN_shorter:
  assumes "DOCTYPE_PATTERN t = Some (name, rest)"
  shows "length rest < length t"
proof -
  define r1 where "r1 = dropWhile is_space (dropWhile is_name_char t)"
  define after where "after = dropWhile (\<lambda>c. c \<noteq> CHR '')'') (tl r1)"
  define r2 where "r2 = (if take 1 r1 = ''('' \<and> takeWhile (\<lambda>c. c \<noteq> CHR '')'') (tl r1) \<noteq> [] \<and> after \<noteq> []
                then dropWhile is_space (tl after) else r1)"
  have nm: "takeWhile is_name_char t \<noteq> []"
    using assms by (auto simp: DOCTYPE_PATTERN_def Let_def split: if_splits)
  have "length (takeWhile is_name_char t) + length (dropWhile is_name_char t) = length t"
    by (metis length_append takeWhile_dropWhile_id)
  with nm have a: "length (dropWhile is_name_char t) < length t"
    by (cases "takeWhile is_name_char t") auto
  have b: "length r1 \<le> length (dropWhile is_name_char t)"
    unfolding r1_def by (rule length_dropWhile_le)
  have "length after \<le> length (tl r1)"
    unfolding after_def by (rule length_dropWhile_le)
  then have c: "length (dropWhile is_space (tl after)) \<le> length r1"
    using length_dropWhile_le[of is_space "tl after"] by simp
  have d: "length r2 \<le> length r1" unfolding r2_def using c by simp
  have "rest = [] \<or> rest = tl r2"
    using assms unfolding DOCTYPE_PATTERN_def Let_def r2_def after_def r1_def
    by (auto split: if_splits)
  then have "length rest \<le> length r2" by auto
  with a b d show ?thesis by simp
qed

text \<open>\<open>DOCTYPE_PATTERN.finditer(text)\<close>: the names of the matches, from the left, none
  overlapping another.\<close>

function finditer_names :: "string \<Rightarrow> string list" where
  "finditer_names [] = []"
| "finditer_names (c # cs) =
     (case DOCTYPE_PATTERN (c # cs) of
        Some (name, rest) \<Rightarrow> name # finditer_names rest
      | None \<Rightarrow> finditer_names cs)"
  by pat_completeness auto
termination
  by (relation "measure length") (auto dest: DOCTYPE_PATTERN_shorter)

section \<open>Values, dictionaries and formatting\<close>

text \<open>
  A Python dictionary is an association list: \<open>map_of\<close> reads a key, \<open>AList.update\<close>
  writes one, and the keys are iterated in the order of the list. Python leaves the
  iteration order of a dictionary and of a set open; the properties below do not depend
  on it.
\<close>

type_synonym 'v dict = "(string \<times> 'v) list"

datatype val = PyNone | PyStr string | PyInt int | PyDict "string dict"

datatype error = AssertionError | ValueError | KeyError string

text \<open>The truth value of a Python value in a condition.\<close>

fun truthy :: "val \<Rightarrow> bool" where
  "truthy PyNone = False"
| "truthy (PyStr s) = (s \<noteq> [])"
| "truthy (PyInt n) = (n \<noteq> 0)"
| "truthy (PyDict d) = (d \<noteq> [])"

text \<open>Two dictionaries are equal when they agree on every key.\<close>

definition dict_eq :: "string dict \<Rightarrow> string dict \<Rightarrow> bool" where
  "dict_eq a b = list_all (\<lambda>k. map_of a k = map_of b k) (map fst a @ map fst b)"

text \<open>\<open>x != y\<close> on values.\<close>

fun py_ne :: "val \<Rightarrow> val \<Rightarrow> bool" where
  "py_ne (PyDict a) (PyDict b) = (\<not> dict_eq a b)"
| "py_ne x y = (x \<noteq> y)"

text \<open>\<open>str(n)\<close> of an integer.\<close>

fun str_nat :: "nat \<Rightarrow> string" where
  "str_nat n =
     (if n < 10 then [''0123456789'' ! n]
      else str_nat (n div 10) @ [''0123456789'' ! (n mod 10)])"

declare str_nat.simps [simp del]

definition str_int :: "int \<Rightarrow> string" where
  "str_int i = (if i < 0 then CHR ''-'' # str_nat (nat (- i)) else str_nat (nat i))"

text \<open>
  \<open>'%s' % v\<close>. A dictionary never reaches the formatting in the script (the side-bag is
  merged, not logged); its text is not modelled.
\<close>

fun fmt :: "val \<Rightarrow> string" where
  "fmt PyNone = ''None''"
| "fmt (PyStr s) = s"
| "fmt (PyInt n) = str_int n"
| "fmt (PyDict d) = ''{...}''"

text \<open>\<open>sep.join(xs)\<close>.\<close>

fun join :: "string \<Rightarrow> string list \<Rightarrow> string" where
  "join sep [] = []"
| "join sep [x] = x"
| "join sep (x # y # ys) = x @ sep @ join sep (y # ys)"

text \<open>\<open>d.get(k, default)\<close> on a dictionary of texts.\<close>

definition get_default :: "string dict \<Rightarrow> string \<Rightarrow> string \<Rightarrow> string" where
  "get_default d k dflt = (case map_of d k of Some v \<Rightarrow> v | None \<Rightarrow> dflt)"

text \<open>
  \<open>set(filter(None, [s.strip() for s in text.split(',')]))\<close>: the distinct non-empty
  trimmed pieces of a comma-separated text.
\<close>

definition tag_names :: "string \<Rightarrow> string list" where
  "tag_names text = remdups (filter (\<lambda>s. s \<noteq> []) (map strip (split_on CHR '','' text)))"

section \<open>Records, entities and the catalog\<close>

text \<open>A record of the bibliography: its BibTeX key, its genre and its fields.\<close>

record bibrec =
  rec_id :: string
  genre :: string
  rec_fields :: "string dict"

definition rec_get :: "bibrec \<Rightarrow> string \<Rightarrow> string option" where
  "rec_get r k = map_of (rec_fields r) k"

definition rec_keys :: "bibrec \<Rightarrow> string list" where
  "rec_keys r = remdups (map fst (rec_fields r))"

text \<open>\<open>rec.get(k)\<close> is present and not empty.\<close>

definition populated :: "bibrec \<Rightarrow> string \<Rightarrow> bool" where
  "populated r k = (case rec_get r k of Some v \<Rightarrow> v \<noteq> [] | None \<Rightarrow> False)"

text \<open>A macro-area, provider or doctype: a lookup entity with its id.\<close>

datatype entity = Entity (ent_id: string)

text \<open>
  A reference of the catalog (\<open>Ref\<close>): its column attributes by name, an unset column
  reading as \<open>None\<close>, and its three relationship collections.
\<close>

record ref =
  attrs :: "val dict"
  macroareas :: "entity list"
  providers :: "entity list"
  doctypes :: "entity list"

definition getattr :: "ref \<Rightarrow> string \<Rightarrow> val" where
  "getattr r k = (case map_of (attrs r) k of Some v \<Rightarrow> v | None \<Rightarrow> PyNone)"

definition setattr :: "ref \<Rightarrow> string \<Rightarrow> val \<Rightarrow> ref" where
  "setattr r k v = r\<lparr>attrs := AList.update k v (attrs r)\<rparr>"

text \<open>
  What the script takes from outside: the helpers it imports (\<open>unescape\<close>,
  \<open>roman_to_int\<close>, \<open>compute_pages\<close>, \<open>slug\<close>), the three lookup maps built by \<open>get_map\<close>,
  and the mode of the run.
\<close>

record env =
  unescape :: "string \<Rightarrow> string"
  roman_to_int :: "string \<Rightarrow> int"
  compute_pages :: "string \<Rightarrow> int option \<times> int option \<times> int option"
  slug :: "string \<Rightarrow> string"
  provider_map :: "string \<Rightarrow> entity option"
  macroarea_map :: "string \<Rightarrow> entity option"
  doctype_map :: "string \<Rightarrow> entity option"
  mode :: string

text \<open>
  The state of a run: the references of the session by primary key, the keys known when
  the run started, the two counters and the change log
  (\<open>ref.id \<rightarrow> {field: (old, new)}\<close>).
\<close>

record state =
  refs :: "(int \<times> ref) list"
  known_ids :: "int list"
  count :: nat
  skipped :: nat
  changes :: "(val \<times> (string \<times> string) dict) list"

section \<open>The field map and the parsed fields\<close>

definition FIELD_MAP :: "(string \<times> string) list" where
  "FIELD_MAP =
    [(''abstract'', ''''), (''added'', ''''), (''additional_items'', ''''),
      (''address'', ''address''), (''adress'', ''address''), (''adviser'', ''''),
      (''aiatsis_callnumber'', ''''), (''aiatsis_code'', ''''),
      (''aiatsis_reference_language'', ''''), (''alnumcodes'', ''''), (''anlanote'', ''''),
      (''anlclanguage'', ''''), (''anlctype'', ''''), (''annote'', ''''),
      (''asjp_name'', ''''), (''audiofile'', ''''), (''author'', ''author''),
      (''author_note'', ''''), (''author_statement'', ''''),
      (''booktitle'', ''booktitle''), (''booktitle_english'', ''''), (''bwonote'', ''''),
      (''call_number'', ''''), (''citation'', ''''), (''class_loc'', ''''),
      (''collection'', ''''), (''comments'', ''''), (''contains_also'', ''''),
      (''contributed'', ''''), (''copies'', ''''), (''copyright'', ''''),
      (''country'', ''''), (''coverage'', ''''), (''crossref'', ''''), (''de'', ''''),
      (''degree'', ''''), (''digital_formats'', ''''), (''document_type'', ''''),
      (''doi'', ''''), (''domain'', ''''), (''edition'', ''edition''),
      (''edition_note'', ''''), (''editor'', ''editor''), (''english_title'', ''''),
      (''extra_hash'', ''''), (''extrahash'', ''''), (''file'', ''''), (''fn'', ''''),
      (''fnnote'', ''''), (''folder'', ''''), (''format'', ''''),
      (''german_subject_headings'', ''''), (''glottolog_ref_id'', ''''),
      (''guldemann_location'', ''''), (''hhnote'', ''''), (''hhtype'', ''''),
      (''howpublished'', ''''), (''id'', ''''), (''inlg'', ''inlg''),
      (''institution'', ''''), (''isbn'', ''''), (''issn'', ''''), (''issue'', ''''),
      (''jfmnote'', ''''), (''journal'', ''journal''), (''key'', ''''),
      (''keywords'', ''''), (''langcode'', ''''), (''langnote'', ''''),
      (''languoidbase_ids'', ''''), (''lapollanote'', ''''), (''last_changed'', ''''),
      (''lccn'', ''''), (''lcode'', ''''), (''lgcde'', ''''), (''lgcode'', ''''),
      (''lgcoe'', ''''), (''lgcosw'', ''''), (''lgfamily'', ''''), (''macro_area'', ''''),
      (''modified'', ''''), (''month'', ''''), (''mpi_eva_library_shelf'', ''''),
      (''mpifn'', ''''), (''no_inventaris'', ''''), (''note'', ''note''),
      (''notes'', ''note''), (''number'', ''number''), (''numberofpages'', ''''),
      (''numner'', ''number''), (''oages'', ''pages''), (''oldhhfn'', ''''),
      (''oldhhfnnote'', ''''), (''omnote'', ''''), (''other_editions'', ''''),
      (''otomanguean_heading'', ''''), (''owner'', ''''), (''ozbib_id'', ''ozbib_id''),
      (''ozbibnote'', ''''), (''ozbibreftype'', ''''), (''paged'', ''pages''),
      (''pages'', ''pages''), (''pagex'', ''pages''), (''permission'', ''''),
      (''pgaes'', ''pages''), (''phdthesis'', ''''), (''prepages'', ''''),
      (''publisher'', ''publisher''), (''pubnote'', ''''), (''rating'', ''''),
      (''read'', ''''), (''relatedresource'', ''''), (''replication'', ''''),
      (''reprint'', ''''), (''restrictions'', ''''), (''review'', ''''),
      (''school'', ''school''), (''seanote'', ''''), (''seifarttype'', ''''),
      (''series'', ''series''), (''series_english'', ''''), (''shelf_location'', ''''),
      (''shorttitle'', ''''), (''sil_id'', ''''), (''source'', ''''), (''src'', ''''),
      (''srctrickle'', ''''), (''stampeann'', ''''), (''stampedesc'', ''''),
      (''status'', ''''), (''subject'', ''subject''),
      (''subject_headings'', ''subject_headings''), (''subsistence_note'', ''''),
      (''superseded'', ''''), (''thanks'', ''''), (''thesistype'', ''''),
      (''timestamp'', ''''), (''title'', ''title''), (''title_english'', ''''),
      (''titlealt'', ''''), (''typ'', ''''), (''umi_id'', ''''), (''url'', ''url''),
      (''vernacular_title'', ''''), (''volume'', ''volume''), (''volumr'', ''volume''),
      (''weball_lgs'', ''''), (''year'', ''year''), (''yeartitle'', '''')]"

text \<open>\<open>CONVERTER.get(source, lambda x: x)(value)\<close> with \<open>CONVERTER = {'ozbib_id': int}\<close>.\<close>

definition CONVERTER :: "string \<Rightarrow> string \<Rightarrow> error + val" where
  "CONVERTER source v =
     (if source = ''ozbib_id''
      then (case py_int v of None \<Rightarrow> Inl ValueError | Some n \<Rightarrow> Inr (PyInt n))
      else Inr (PyStr v))"

text \<open>\<open>kw['jsondata']\<close>, the side-bag under construction.\<close>

definition kw_jsondata :: "val dict \<Rightarrow> string dict" where
  "kw_jsondata kw = (case map_of kw ''jsondata'' of Some (PyDict d) \<Rightarrow> d | _ \<Rightarrow> [])"

text \<open>\<open>kw.get(k)\<close> when it is a non-empty text.\<close>

definition kw_text :: "val dict \<Rightarrow> string \<Rightarrow> string option" where
  "kw_text kw k = (case map_of kw k of Some (PyStr s) \<Rightarrow> (if s = [] then None else Some s) | _ \<Rightarrow> None)"

text \<open>A loop whose body may raise: the first error ends it.\<close>

fun fold_err :: "('a \<Rightarrow> 's \<Rightarrow> error + 's) \<Rightarrow> 'a list \<Rightarrow> 's \<Rightarrow> error + 's" where
  "fold_err f [] s = Inr s"
| "fold_err f (x # xs) s = (case f x s of Inl e \<Rightarrow> Inl e | Inr s' \<Rightarrow> fold_err f xs s')"

text \<open>Lines 251-258, the body of the loop over \<open>FIELD_MAP.items()\<close>.\<close>

definition field_step :: "env \<Rightarrow> bibrec \<Rightarrow> string \<times> string \<Rightarrow> val dict \<Rightarrow> error + val dict" where
  "field_step e r st kw =
     (case rec_get r (fst st) of
        None \<Rightarrow> Inr kw
      | Some raw \<Rightarrow>
          if raw = [] then Inr kw
          else let v = unescape e raw in
            if snd st \<noteq> [] then
              (case CONVERTER (fst st) v of
                 Inl err \<Rightarrow> Inl err
               | Inr x \<Rightarrow> Inr (AList.update (snd st) x kw))
            else Inr (AList.update ''jsondata'' (PyDict (AList.update (fst st) v (kw_jsondata kw))) kw))"

text \<open>Lines 244-249, the dictionary before the loop.\<close>

definition kw_init :: "bibrec \<Rightarrow> int \<Rightarrow> val dict" where
  "kw_init r pk =
     [(''pk'', PyInt pk), (''bibtex_type'', PyStr (genre r)), (''id'', PyStr (str_int pk)),
      (''jsondata'', PyDict [(''bibtexkey'', rec_id r)])]"

text \<open>Lines 261-265: a numeric \<open>numberofpages\<close> field gives \<open>pages_int\<close>.\<close>

definition numberofpages_step :: "bibrec \<Rightarrow> val dict \<Rightarrow> val dict" where
  "numberofpages_step r kw =
     (if populated r ''numberofpages''
      then (case py_int (strip (the (rec_get r ''numberofpages''))) of
              Some n \<Rightarrow> AList.update ''pages_int'' (PyInt n) kw
            | None \<Rightarrow> kw)
      else kw)"

text \<open>Lines 267-277: the numeric year.\<close>

definition year_step :: "val dict \<Rightarrow> val dict" where
  "year_step kw =
     (case kw_text kw ''year'' of
        None \<Rightarrow> kw
      | Some y \<Rightarrow>
          (case extract_year y of
             Some n \<Rightarrow> AList.update ''year_int'' (PyInt n) kw
           | None \<Rightarrow> kw))"

text \<open>Lines 279-284: a publisher text with a colon is split into address and publisher.\<close>

definition publisher_step :: "val dict \<Rightarrow> val dict" where
  "publisher_step kw =
     (case kw_text kw ''publisher'' of
        None \<Rightarrow> kw
      | Some p \<Rightarrow>
          if CHR '':'' \<in> set p then
            (let address = strip (fst (split_once CHR '':'' p));
                 publisher = strip (snd (split_once CHR '':'' p))
             in if map_of kw ''address'' = None \<or> map_of kw ''address'' = Some (PyStr address)
                then AList.update ''publisher'' (PyStr publisher)
                       (AList.update ''address'' (PyStr address) kw)
                else kw)
          else kw)"

text \<open>Lines 286-302: the page numbers.\<close>

definition set_if :: "string \<Rightarrow> int option \<Rightarrow> val dict \<Rightarrow> val dict" where
  "set_if k v kw = (case v of Some n \<Rightarrow> AList.update k (PyInt n) kw | None \<Rightarrow> kw)"

definition pages_step :: "env \<Rightarrow> val dict \<Rightarrow> val dict" where
  "pages_step e kw =
     (case kw_text kw ''pages'' of
        None \<Rightarrow> kw
      | Some pages \<Rightarrow>
          (case (case re_search ROMANPAGESPATTERNra pages of
                   Some m \<Rightarrow> Some m
                 | None \<Rightarrow> re_search ROMANPAGESPATTERNar pages) of
             Some (roman, arabic) \<Rightarrow>
               if map_of kw ''pages_int'' = None
               then AList.update ''pages_int'' (PyInt (roman_to_int e roman + digits_val arabic)) kw
               else kw
           | None \<Rightarrow>
               (case compute_pages e pages of
                  (start, end, number) \<Rightarrow>
                    set_if ''pages_int'' number
                      (set_if ''endpage_int'' end (set_if ''startpage_int'' start kw)))))"

text \<open>Lines 244-302: the parsed fields of a record.\<close>

definition parse_record :: "env \<Rightarrow> bibrec \<Rightarrow> int \<Rightarrow> error + val dict" where
  "parse_record e r pk =
     (case fold_err (field_step e r) FIELD_MAP (kw_init r pk) of
        Inl err \<Rightarrow> Inl err
      | Inr kw \<Rightarrow> Inr (pages_step e (publisher_step (year_step (numberofpages_step r kw)))))"

section \<open>Relationship reconciliation\<close>

text \<open>
  Lines 331-334, \<open>append(attr, obj)\<close>: the object is appended unless the collection holds
  it already; the result says whether it was appended. An entity is a true value, so
  \<open>if obj\<close> never fails for what the lookup maps return.
\<close>

definition append_entity :: "entity list \<Rightarrow> entity \<Rightarrow> entity list \<times> bool" where
  "append_entity attr obj = (if obj \<notin> set attr then (attr @ [obj], True) else (attr, False))"

text \<open>
  Modelled from the spec: \<open>update_relationship\<close> of \<open>glottolog3/scripts/util.py\<close>, which
  is not among the sources. Section 4.3 of the specification describes it: the desired
  members that the collection does not hold are appended; the second flag says whether
  an existing member is absent from the desired ones, and nothing is removed. The
  result is the collection afterwards, the members added and that flag.
\<close>

definition update_relationship :: "entity list \<Rightarrow> entity list \<Rightarrow> entity list \<times> entity list \<times> bool" where
  "update_relationship existing desired =
     (let added = filter (\<lambda>x. x \<notin> set existing) (remdups desired)
      in (existing @ added, added, \<exists>x \<in> set existing. x \<notin> set desired))"

text \<open>\<open>[m[name] for name in names]\<close>: a name that the map lacks raises \<open>KeyError\<close>.\<close>

fun lookup_all :: "(string \<Rightarrow> entity option) \<Rightarrow> string list \<Rightarrow> error + entity list" where
  "lookup_all m [] = Inr []"
| "lookup_all m (n # ns) =
     (case m n of
        None \<Rightarrow> Inl (KeyError n)
      | Some x \<Rightarrow> (case lookup_all m ns of Inl err \<Rightarrow> Inl err | Inr xs \<Rightarrow> Inr (x # xs)))"

text \<open>Lines 345-347, the body of the loop over the provider names of \<open>src\<close>.\<close>

definition providers_step :: "env \<Rightarrow> string \<Rightarrow> entity list \<times> bool \<Rightarrow> error + entity list \<times> bool" where
  "providers_step e name pc =
     (case provider_map e (slug e name) of
        None \<Rightarrow> Inl (KeyError (slug e name))
      | Some obj \<Rightarrow>
          Inr (fst (append_entity (fst pc) obj), snd pc \<or> snd (append_entity (fst pc) obj)))"

text \<open>
  Lines 336-353: the macro-areas, providers and doctypes named by the side-bag entries
  \<open>macro_area\<close>, \<open>src\<close> and \<open>hhtype\<close> are reconciled with the reference, and the
  \<open>changed\<close> flag collects what the three steps report.
\<close>

definition reconcile :: "env \<Rightarrow> string dict \<Rightarrow> ref \<times> bool \<Rightarrow> error + ref \<times> bool" where
  "reconcile e jd rc =
     (case lookup_all (macroarea_map e) (tag_names (get_default jd ''macro_area'' [])) of
        Inl err \<Rightarrow> Inl err
      | Inr ms \<Rightarrow>
          (case update_relationship (macroareas (fst rc)) ms of
             (mcol, ma, mr) \<Rightarrow>
               (case fold_err (providers_step e) (tag_names (get_default jd ''src'' []))
                       (providers (fst rc), snd rc \<or> ma \<noteq> [] \<or> mr) of
                  Inl err \<Rightarrow> Inl err
                | Inr (pcol, changed) \<Rightarrow>
                    (case lookup_all (doctype_map e)
                            (finditer_names (get_default jd ''hhtype'' [])) of
                       Inl err \<Rightarrow> Inl err
                     | Inr ds \<Rightarrow>
                         (case update_relationship (doctypes (fst rc)) ds of
                            (dcol, da, dr) \<Rightarrow>
                              Inr ((fst rc)\<lparr>macroareas := mcol, providers := pcol, doctypes := dcol\<rparr>,
                                   changed \<or> da \<noteq> [] \<or> dr))))))"

section \<open>Creating and updating a reference\<close>

definition ref_jsondata :: "ref \<Rightarrow> string dict" where
  "ref_jsondata r = (case getattr r ''jsondata'' of PyDict d \<Rightarrow> d | _ \<Rightarrow> [])"

text \<open>
  \<open>ref.update_jsondata(**d)\<close> of the clld library: the entries of \<open>d\<close> are written into a
  copy of the entity's side-bag, which becomes the side-bag.
\<close>

definition update_jsondata :: "ref \<Rightarrow> string dict \<Rightarrow> ref" where
  "update_jsondata r d =
     setattr r ''jsondata'' (PyDict (fold (\<lambda>kv. AList.update (fst kv) (snd kv)) d (ref_jsondata r)))"

text \<open>Lines 321-324: one entry of the change log, under the id of the reference.\<close>

definition log_change ::
  "val \<Rightarrow> string \<Rightarrow> string \<times> string \<Rightarrow> (val \<times> (string \<times> string) dict) list
     \<Rightarrow> (val \<times> (string \<times> string) dict) list" where
  "log_change rid k ov ch =
     (case map_of ch rid of
        Some d \<Rightarrow> AList.update rid (AList.update k ov d) ch
      | None \<Rightarrow> AList.update rid [(k, ov)] ch)"

text \<open>Lines 325-326: \<open>if ref.title: ref.description = ref.title\<close>.\<close>

definition mirror_title :: "ref \<Rightarrow> ref" where
  "mirror_title r =
     (if truthy (getattr r ''title'') then setattr r ''description'' (getattr r ''title'') else r)"

text \<open>
  Lines 305-326, the body of the loop over \<open>kw.keys()\<close> on the update path. The state of
  the loop is the reference, the \<open>changed\<close> flag and the change log.
\<close>

definition update_field ::
  "string \<times> val \<Rightarrow> ref \<times> bool \<times> (val \<times> (string \<times> string) dict) list
     \<Rightarrow> ref \<times> bool \<times> (val \<times> (string \<times> string) dict) list" where
  "update_field kv s =
     (case s of (r, changed, ch) \<Rightarrow>
        if fst kv = ''pk'' then s
        else if py_ne (snd kv) (getattr r (fst kv)) then
          (if fst kv = ''jsondata''
           then (mirror_title (update_jsondata r (case snd kv of PyDict d \<Rightarrow> d | _ \<Rightarrow> [])),
                 changed, ch)
           else (mirror_title (setattr r (fst kv) (snd kv)), True,
                 log_change (getattr (setattr r (fst kv) (snd kv)) ''id'') (fst kv)
                   (fmt (getattr r (fst kv)), fmt (snd kv)) ch))
        else (mirror_title r, changed, ch))"

text \<open>
  Line 329: \<open>Ref(name='%s %s' % (kw.get('author', 'na'), kw.get('year', 'nd')), **kw)\<close>.
  The constructor sets the attributes it is given and nothing else.
\<close>

definition create_ref :: "val dict \<Rightarrow> ref" where
  "create_ref kw =
     \<lparr>attrs =
        (''name'',
         PyStr (fmt (case map_of kw ''author'' of Some v \<Rightarrow> v | None \<Rightarrow> PyStr ''na'') @ '' '' @
                fmt (case map_of kw ''year'' of Some v \<Rightarrow> v | None \<Rightarrow> PyStr ''nd''))) # kw,
      macroareas = [], providers = [], doctypes = []\<rparr>"

text \<open>Lines 358-359: a language code of three characters is put in brackets.\<close>

definition lgcode_step :: "string dict \<Rightarrow> string dict" where
  "lgcode_step jd =
     (if length (get_default jd ''lgcode'' []) = 3
      then AList.update ''lgcode'' (''['' @ get_default jd ''lgcode'' [] @ '']'') jd
      else jd)"

text \<open>Lines 382-383: the two summary texts.\<close>

definition summary_strs :: "ref \<Rightarrow> ref" where
  "summary_strs r =
     setattr (setattr r ''doctypes_str'' (PyStr (join '', '' (map ent_id (doctypes r)))))
       ''providers_str'' (PyStr (join '', '' (map ent_id (providers r))))"

text \<open>
  Lines 241-383 for one record with the key \<open>pk\<close>: the reference afterwards, the
  \<open>changed\<close> flag and the change log. \<open>existing\<close> is what the session holds under the
  key. On the create path the new reference holds the very dictionary \<open>kw['jsondata']\<close>,
  so the write of line 359 shows in the reference; on the update path the entries
  were copied before.
\<close>

definition merge_ref ::
  "env \<Rightarrow> ref option \<Rightarrow> (val \<times> (string \<times> string) dict) list \<Rightarrow> bibrec \<Rightarrow> int
     \<Rightarrow> error + ref \<times> bool \<times> (val \<times> (string \<times> string) dict) list" where
  "merge_ref e existing ch r pk =
     (case parse_record e r pk of
        Inl err \<Rightarrow> Inl err
      | Inr kw \<Rightarrow>
          (case (case existing of
                   Some ref0 \<Rightarrow> fold update_field kw (ref0, False, ch)
                 | None \<Rightarrow> (create_ref kw, True, ch)) of
             (ref1, changed1, ch1) \<Rightarrow>
               (case reconcile e (kw_jsondata kw) (ref1, changed1) of
                  Inl err \<Rightarrow> Inl err
                | Inr (ref2, changed) \<Rightarrow>
                    (let ref3 = (if existing = None
                                 then setattr ref2 ''jsondata'' (PyDict (lgcode_step (kw_jsondata kw)))
                                 else ref2)
                     in Inr (if changed then summary_strs ref3 else ref3, changed, ch1)))))"

text \<open>
  Lines 229-386, the body of the loop over the records. A record with fewer than six
  keys is counted and skipped; the reference id must be present and numeric; unless the
  mode is \<open>update\<close>, a known key is skipped.
\<close>

definition process_record :: "env \<Rightarrow> bibrec \<Rightarrow> state \<Rightarrow> error + state" where
  "process_record e r st =
     (if length (rec_keys r) < 6 then Inr (st\<lparr>skipped := skipped st + 1\<rparr>)
      else if \<not> populated r ''glottolog_ref_id'' then Inl AssertionError
      else (case py_int (get_default (rec_fields r) ''glottolog_ref_id'' []) of
              None \<Rightarrow> Inl ValueError
            | Some pk \<Rightarrow>
                if mode e \<noteq> ''update'' \<and> pk \<in> set (known_ids st) then Inr st
                else (case merge_ref e (map_of (refs st) pk) (changes st) r pk of
                        Inl err \<Rightarrow> Inl err
                      | Inr (ref', changed, ch) \<Rightarrow>
                          Inr (st\<lparr>refs := AList.update pk ref' (refs st),
                                  count := (if changed then count st + 1 else count st),
                                  changes := ch\<rparr>))))"

text \<open>
  \<open>main\<close>, lines 209-234 and 388-392: the loop over the bibliography inside one
  transaction. An error ends the run, and the result is the error alone.
\<close>

definition main :: "env \<Rightarrow> bibrec list \<Rightarrow> (int \<times> ref) list \<Rightarrow> error + state" where
  "main e bib db =
     fold_err (process_record e) bib
       \<lparr>refs = db, known_ids = map fst db, count = 0, skipped = 0, changes = []\<rparr>"

section \<open>The languoid tree of \<open>models.py\<close>\<close>

text \<open>A reference of a value set, by the key of its source.\<close>

datatype vsref = ValueSetReference (source_pk: int)

text \<open>A value set of a languoid: the id of its parameter (\<open>fc\<close> or \<open>sc\<close>) and its
  references.\<close>

record valueset =
  parameter_id :: string
  references :: "vsref list"

text \<open>A languoid: its key, the key of its father, and its value sets.\<close>

record languoid =
  lpk :: int
  father_pk :: "int option"
  valuesets :: "valueset list"

text \<open>\<open>self.father\<close>: the languoid with the key \<open>father_pk\<close>, if there is one.\<close>

definition father :: "(int \<times> languoid) list \<Rightarrow> languoid \<Rightarrow> languoid option" where
  "father db l = (case father_pk l of None \<Rightarrow> None | Some p \<Rightarrow> map_of db p)"

text \<open>\<open>valueset_dict\<close> and \<open>classification\<close>: of two value sets with one parameter the later
  one stays in the dictionary.\<close>

definition classification :: "languoid \<Rightarrow> string \<Rightarrow> valueset option" where
  "classification l t = map_of (rev (map (\<lambda>vs. (parameter_id vs, vs)) (valuesets l))) t"

text \<open>\<open>_crefs(t)\<close>.\<close>

definition crefs_of :: "languoid \<Rightarrow> string \<Rightarrow> vsref list" where
  "crefs_of l t = (case classification l t of Some c \<Rightarrow> references c | None \<Rightarrow> [])"

text \<open>
  \<open>screfs\<close>: the recursion follows the fathers and need not end when they form a cycle,
  so the result is optional: \<open>None\<close> stands for a lookup that does not return.
\<close>

partial_function (option) screfs :: "(int \<times> languoid) list \<Rightarrow> languoid \<Rightarrow> vsref list option" where
  "screfs db l =
     (if crefs_of l ''sc'' = []
      then (case father db l of Some f \<Rightarrow> screfs db f | None \<Rightarrow> Some (crefs_of l ''sc''))
      else Some (crefs_of l ''sc''))"

section \<open>Year texts as the specification words them\<close>

text \<open>
  A year is a text of four digits that begins with 1 or 2. A bracketed year is a year
  in square brackets, which may be followed inside the brackets by a dash and at least
  one digit. A pattern occurs at a position of a text when the text from there on
  begins with it.
\<close>

definition is_year :: "string \<Rightarrow> bool" where
  "is_year y = (length y = 4 \<and> is_year_lead (hd y) \<and> list_all is_digit y)"

definition bracketed_year :: "string \<Rightarrow> string \<Rightarrow> bool" where
  "bracketed_year y w =
     (is_year y \<and>
      (w = ''['' @ y @ '']'' \<or>
       (\<exists>ds. ds \<noteq> [] \<and> list_all is_digit ds \<and> w = ''['' @ y @ ''-'' @ ds @ '']'')))"

definition year_at :: "string \<Rightarrow> nat \<Rightarrow> bool" where
  "year_at s i = (\<exists>y. is_year y \<and> prefix y (drop i s))"

definition bracket_at :: "string \<Rightarrow> nat \<Rightarrow> bool" where
  "bracket_at s i = (\<exists>y w. bracketed_year y w \<and> prefix w (drop i s))"


text \<open>
  The father chain of a languoid is finite and free of cycles when it ends at a languoid
  without a father.
\<close>

inductive chain_ok :: "(int \<times> languoid) list \<Rightarrow> languoid \<Rightarrow> bool" for db where
  root: "father db l = None \<Longrightarrow> chain_ok db l"
| step: "father db l = Some f \<Longrightarrow> chain_ok db f \<Longrightarrow> chain_ok db l"

section \<open>Example data\<close>

text \<open>
  An environment for the examples: texts are taken as they are, three providers, one
  macro-area and one doctype are known, and the page computation knows the range
  \<open>12-34\<close> of 23 pages.
\<close>

definition example_env :: env where
  "example_env =
     \<lparr>unescape = (\<lambda>s. s), roman_to_int = (\<lambda>s. 12),
      compute_pages = (\<lambda>s. if s = ''12-34'' then (Some 12, Some 34, Some 23) else (None, None, None)),
      slug = (\<lambda>s. s),
      provider_map = map_of [(''hh'', Entity ''hh''), (''sil'', Entity ''sil''),
                             (''wals'', Entity ''wals'')],
      macroarea_map = map_of [(''Africa'', Entity ''africa'')],
      doctype_map = map_of [(''grammar'', Entity ''grammar'')],
      mode = ''update''\<rparr>"

definition sparse_rec :: bibrec where
  "sparse_rec =
     \<lparr>rec_id = ''doe1987'', genre = ''book'',
      rec_fields = [(''glottolog_ref_id'', ''7''), (''author'', ''Doe''), (''year'', ''1987''),
                    (''title'', ''T''), (''pages'', ''12-34'')]\<rparr>"

text \<open>A family with one sub-classification reference and a child without any.\<close>

definition family_F :: languoid where
  "family_F = \<lparr>lpk = 1, father_pk = None,
     valuesets = [\<lparr>parameter_id = ''sc'', references = [ValueSetReference 10]\<rparr>]\<rparr>"

definition child_C :: languoid where
  "child_C = \<lparr>lpk = 2, father_pk = Some 1, valuesets = []\<rparr>"

text \<open>
  A record with a numeric \<open>numberofpages\<close> field and a page range, the same record with
  Roman and Arabic page numbers instead, and the reference that the script creates from
  the first.
\<close>

definition pages_rec :: bibrec where
  "pages_rec =
     \<lparr>rec_id = ''doe1987'', genre = ''book'',
      rec_fields = [(''glottolog_ref_id'', ''7''), (''author'', ''Doe''), (''year'', ''1987''),
                    (''title'', ''T''), (''pages'', ''12-34''), (''numberofpages'', ''100'')]\<rparr>"

definition roman_rec :: bibrec where
  "roman_rec = pages_rec\<lparr>rec_fields := AList.update ''pages'' ''xii+34'' (rec_fields pages_rec)\<rparr>"

definition created_ref :: ref where
  "created_ref =
     \<lparr>attrs = [(''name'', PyStr ''Doe 1987''), (''pk'', PyInt 7), (''bibtex_type'', PyStr ''book''),
               (''id'', PyStr ''7''),
               (''jsondata'', PyDict [(''bibtexkey'', ''doe1987''), (''glottolog_ref_id'', ''7''),
                                      (''numberofpages'', ''100'')]),
               (''author'', PyStr ''Doe''), (''pages'', PyStr ''12-34''), (''title'', PyStr ''T''),
               (''year'', PyStr ''1987''), (''pages_int'', PyInt 23), (''year_int'', PyInt 1987),
               (''startpage_int'', PyInt 12), (''endpage_int'', PyInt 34),
               (''doctypes_str'', PyStr []), (''providers_str'', PyStr [])],
      macroareas = [], providers = [], doctypes = []\<rparr>"

text \<open>A record with an address and a publisher text that names another place.\<close>

definition addr_rec :: bibrec where
  "addr_rec =
     \<lparr>rec_id = ''doe1987'', genre = ''book'',
      rec_fields = [(''glottolog_ref_id'', ''7''), (''author'', ''Doe''), (''year'', ''1987''),
                    (''title'', ''T''), (''address'', ''Leipzig''),
                    (''publisher'', ''Berlin: Mouton'')]\<rparr>"

section \<open>Names for the properties of the parsed fields\<close>

text \<open>
  The keys that the dictionary of parsed fields can have: the four of lines 244-249, the
  four numeric ones of lines 261-302, and the targets of the field map.
\<close>

definition KW_KEYS :: "string list" where
  "KW_KEYS =
     [''pk'', ''bibtex_type'', ''id'', ''jsondata'', ''pages_int'', ''year_int'',
      ''startpage_int'', ''endpage_int'', ''address'', ''author'', ''booktitle'', ''edition'',
      ''editor'', ''inlg'', ''journal'', ''note'', ''number'', ''ozbib_id'', ''pages'',
      ''publisher'', ''school'', ''series'', ''subject'', ''subject_headings'', ''title'',
      ''url'', ''volume'', ''year'']"

text \<open>The unescaped text of a field of a record.\<close>

definition rec_text :: "env \<Rightarrow> bibrec \<Rightarrow> string \<Rightarrow> string" where
  "rec_text e r k = unescape e (get_default (rec_fields r) k [])"

text \<open>
  A source field is unmapped when the field map gives it the empty target, and it has a
  canonical target when the field map gives it another one.
\<close>

definition unmapped :: "string \<Rightarrow> bool" where
  "unmapped k = ((k, []) \<in> set FIELD_MAP)"

definition has_target :: "string \<Rightarrow> bool" where
  "has_target k = (\<exists>st \<in> set FIELD_MAP. fst st = k \<and> snd st \<noteq> [])"

text \<open>A record with a language code of three characters and a field that the field map
  does not know.\<close>

definition lg_rec :: bibrec where
  "lg_rec =
     \<lparr>rec_id = ''doe1987'', genre = ''book'',
      rec_fields = [(''glottolog_ref_id'', ''7''), (''author'', ''Doe''), (''year'', ''1987''),
                    (''title'', ''T''), (''lgcode'', ''abc''), (''foo'', ''bar'')]\<rparr>"

section \<open>Names for the properties of reconciliation\<close>

text \<open>
  The entities that a side-bag names: the macro-areas of its entry \<open>macro_area\<close>, the
  providers of its entry \<open>src\<close> (through \<open>slug\<close>) and the doctypes of its entry \<open>hhtype\<close>,
  as far as the lookup maps know the names.
\<close>

definition desired_macroareas :: "env \<Rightarrow> string dict \<Rightarrow> entity list" where
  "desired_macroareas e jd =
     List.map_filter (macroarea_map e) (tag_names (get_default jd ''macro_area'' []))"

definition desired_providers :: "env \<Rightarrow> string dict \<Rightarrow> entity list" where
  "desired_providers e jd =
     List.map_filter (\<lambda>n. provider_map e (slug e n)) (tag_names (get_default jd ''src'' []))"

definition desired_doctypes :: "env \<Rightarrow> string dict \<Rightarrow> entity list" where
  "desired_doctypes e jd =
     List.map_filter (doctype_map e) (finditer_names (get_default jd ''hhtype'' []))"

text \<open>
  A collection was only appended to: it is the old collection followed by the desired
  members that the old collection lacked, each once.
\<close>

definition appended_only :: "entity list \<Rightarrow> entity list \<Rightarrow> entity list \<Rightarrow> bool" where
  "appended_only old desired new =
     (\<exists>added. new = old @ added \<and> distinct added \<and> set added = set desired - set old)"

text \<open>The reference a record meets: the existing one, or one without any relationship yet.\<close>

definition old_ref :: "ref option \<Rightarrow> ref" where
  "old_ref existing =
     (case existing of
        Some r \<Rightarrow> r
      | None \<Rightarrow> \<lparr>attrs = [], macroareas = [], providers = [], doctypes = []\<rparr>)"

text \<open>A reference with the providers \<open>hh\<close> and \<open>sil\<close>, and a record that names the providers
  \<open>sil\<close> and \<open>wals\<close>.\<close>

definition src_rec :: bibrec where
  "src_rec = pages_rec\<lparr>rec_fields := rec_fields pages_rec @ [(''src'', ''sil, wals'')]\<rparr>"

definition ref_AB :: ref where
  "ref_AB = created_ref\<lparr>providers := [Entity ''hh'', Entity ''sil'']\<rparr>"

section \<open>Names for the properties of the update path\<close>

text \<open>
  A parsed field differs from the reference when it is neither the key nor the side-bag
  and its value is unequal to the attribute; the parsed fields agree with a reference
  when none differs. The second predicate says the same of the field \<open>id\<close> alone.
\<close>

definition differs :: "ref \<Rightarrow> string \<times> val \<Rightarrow> bool" where
  "differs r kv = (fst kv \<noteq> ''pk'' \<and> fst kv \<noteq> ''jsondata'' \<and> py_ne (snd kv) (getattr r (fst kv)))"

definition agrees :: "val dict \<Rightarrow> ref \<Rightarrow> bool" where
  "agrees kw r = list_all (\<lambda>kv. \<not> differs r kv) kw"

definition id_agrees :: "val dict \<Rightarrow> ref \<Rightarrow> bool" where
  "id_agrees kw r = list_all (\<lambda>kv. fst kv \<noteq> ''id'' \<or> \<not> differs r kv) kw"

text \<open>The entry of the change log for a reference id and a field.\<close>

definition logged :: "(val \<times> (string \<times> string) dict) list \<Rightarrow> val \<Rightarrow> string \<Rightarrow> (string \<times> string) option" where
  "logged ch rid k = (case map_of ch rid of Some d \<Rightarrow> map_of d k | None \<Rightarrow> None)"

text \<open>
  What every dictionary of parsed fields satisfies: its keys are distinct and known, and
  its side-bag is a dictionary with distinct keys.
\<close>

definition kw_ok :: "val dict \<Rightarrow> bool" where
  "kw_ok kw =
     (distinct (map fst kw) \<and> fst ` set kw \<subseteq> set KW_KEYS
      \<and> (\<exists>d. map_of kw ''jsondata'' = Some (PyDict d) \<and> distinct (map fst d)))"

text \<open>
  Relationship reconciliation reports a change: a member was appended to one of the three
  collections, or a macro-area or doctype that the reference had is not among the
  desired ones.
\<close>

definition relationships_changed :: "env \<Rightarrow> string dict \<Rightarrow> ref \<Rightarrow> ref \<Rightarrow> bool" where
  "relationships_changed e jd old new =
     (macroareas new \<noteq> macroareas old \<or> providers new \<noteq> providers old
      \<or> doctypes new \<noteq> doctypes old
      \<or> \<not> set (macroareas old) \<subseteq> set (desired_macroareas e jd)
      \<or> \<not> set (doctypes old) \<subseteq> set (desired_doctypes e jd))"

text \<open>The record of the examples with one more side-bag field, and with another title.\<close>

definition keywords_rec :: bibrec where
  "keywords_rec = pages_rec\<lparr>rec_fields := rec_fields pages_rec @ [(''keywords'', ''tone'')]\<rparr>"

definition retitled_rec :: bibrec where
  "retitled_rec = pages_rec\<lparr>rec_fields := AList.update ''title'' ''U'' (rec_fields pages_rec)\<rparr>"

section \<open>Names for the properties of sparse records and of years\<close>

text \<open>The keys of a record whose values are not empty.\<close>

definition populated_keys :: "bibrec \<Rightarrow> string list" where
  "populated_keys r = filter (populated r) (rec_keys r)"

text \<open>A record with six keys, one of them with an empty value.\<close>

definition six_key_rec :: bibrec where
  "six_key_rec = sparse_rec\<lparr>rec_fields := rec_fields sparse_rec @ [(''note'', [])]\<rparr>"

text \<open>
  A year stands alone at a position of a text when it occurs there and no digit stands
  directly before or after it.
\<close>

definition standalone_year_at :: "string \<Rightarrow> nat \<Rightarrow> bool" where
  "standalone_year_at s i =
     (year_at s i \<and> (i = 0 \<or> \<not> is_digit (s ! (i - 1)))
      \<and> (length s \<le> i + 4 \<or> \<not> is_digit (s ! (i + 4))))"

section \<open>Names for the properties of a second run\<close>

text \<open>
  A reference has a lingering member when one of its macro-areas or doctypes is not among
  those that the side-bag names; a record meets lingering members in a state when the
  reference with the record's id has one.
\<close>

definition lingering :: "env \<Rightarrow> string dict \<Rightarrow> ref \<Rightarrow> bool" where
  "lingering e jd old =
     (\<not> set (macroareas old) \<subseteq> set (desired_macroareas e jd)
      \<or> \<not> set (doctypes old) \<subseteq> set (desired_doctypes e jd))"

definition lingering_members :: "env \<Rightarrow> bibrec \<Rightarrow> state \<Rightarrow> bool" where
  "lingering_members e r st =
     (case py_int (get_default (rec_fields r) ''glottolog_ref_id'' []) of
        None \<Rightarrow> False
      | Some pk \<Rightarrow>
          (case parse_record e r pk of
             Inl err \<Rightarrow> False
           | Inr kw \<Rightarrow> lingering e (kw_jsondata kw) (old_ref (map_of (refs st) pk))))"

text \<open>The catalog before anything was imported.\<close>

definition start_state :: state where
  "start_state = \<lparr>refs = [], known_ids = [], count = 0, skipped = 0, changes = []\<rparr>"

text \<open>
  A reference with the doctype \<open>grammar\<close>, which the record of the examples does not name,
  and the same reference after that record was merged into it.
\<close>

definition tagged_ref :: ref where
  "tagged_ref = created_ref\<lparr>doctypes := [Entity ''grammar'']\<rparr>"

definition retagged_ref :: ref where
  "retagged_ref =
     tagged_ref\<lparr>attrs := AList.update ''doctypes_str'' (PyStr ''grammar'')
                            (attrs tagged_ref @ [(''description'', PyStr ''T'')])\<rparr>"

section \<open>Year extraction\<close>

text \<open>The matchers accept what the patterns describe.\<close>

lemma lead_digit: "is_year_lead c \<Longrightarrow> is_digit c"
  by (auto simp: is_year_lead_def is_digit_def)

lemma YEAR_PATTERN_short: "length t < 4 \<Longrightarrow> YEAR_PATTERN t = None"
  by (cases t rule: YEAR_PATTERN.cases) auto

lemma YEAR_PATTERN_iff: "YEAR_PATTERN t = Some y \<longleftrightarrow> is_year y \<and> prefix y t"
proof (cases "length t < 4")
  case True
  then show ?thesis
    by (auto simp: YEAR_PATTERN_short is_year_def dest: prefix_length_le)
next
  case False
  then obtain a b c d rest where t: "t = a # b # c # d # rest"
    by (cases t rule: YEAR_PATTERN.cases) auto
  show ?thesis
  proof
    assume "YEAR_PATTERN t = Some y"
    with t show "is_year y \<and> prefix y t"
      by (auto simp: is_year_def lead_digit split: if_splits)
  next
    assume h: "is_year y \<and> prefix y t"
    then obtain z where z: "t = y @ z" by (auto simp: prefix_def)
    from h have "length y = 4" by (simp add: is_year_def)
    then obtain p q r u where y: "y = [p, q, r, u]"
      by (auto simp: length_Suc_conv numeral_eq_Suc)
    with h z t show "YEAR_PATTERN t = Some y"
      by (auto simp: is_year_def)
  qed
qed

lemma re_search_None: "re_search m s = None \<longleftrightarrow> (\<forall>i. m (drop i s) = None)"
proof (induction s)
  case Nil then show ?case by simp
next
  case (Cons c cs)
  show ?case
  proof
    assume a: "re_search m (c # cs) = None"
    then have 0: "m (c # cs) = None" and r: "re_search m cs = None"
      by (auto split: option.splits)
    show "\<forall>i. m (drop i (c # cs)) = None"
    proof
      fix i show "m (drop i (c # cs)) = None"
        using 0 r Cons.IH by (cases i) auto
    qed
  next
    assume a: "\<forall>i. m (drop i (c # cs)) = None"
    then have "m (c # cs) = None" by (metis drop0)
    moreover have "\<forall>i. m (drop i cs) = None" using a by (metis drop_Suc_Cons)
    ultimately show "re_search m (c # cs) = None" using Cons.IH by simp
  qed
qed

lemma re_search_Least:
  assumes "m (drop i s) \<noteq> None"
  shows "re_search m s = m (drop (LEAST i. m (drop i s) \<noteq> None) s)"
  using assms
proof (induction s arbitrary: i)
  case Nil
  then show ?case by simp
next
  case (Cons c cs)
  show ?case
  proof (cases "m (c # cs)")
    case (Some r)
    then have "(LEAST i. m (drop i (c # cs)) \<noteq> None) = 0"
      by (intro Least_equality) auto
    with Some show ?thesis by simp
  next
    case None
    with Cons.prems obtain j where j: "i = Suc j" by (cases i) auto
    with Cons.prems have ex: "m (drop j cs) \<noteq> None" by simp
    have "(LEAST i. m (drop i (c # cs)) \<noteq> None) = Suc (LEAST i. m (drop (Suc i) (c # cs)) \<noteq> None)"
      by (rule Least_Suc[where n="Suc j"]) (use None Cons.prems j in auto)
    then show ?thesis using None Cons.IH[OF ex] by simp
  qed
qed

lemma not_digit_bracket: "\<not> is_digit CHR '']''"
  by (simp add: is_digit_def)

lemma takeWhile_digits: "list_all is_digit ds \<Longrightarrow> takeWhile is_digit (ds @ CHR '']'' # z) = ds"
  by (induction ds) (auto simp: not_digit_bracket)

lemma dropWhile_digits: "list_all is_digit ds \<Longrightarrow> dropWhile is_digit (ds @ CHR '']'' # z) = CHR '']'' # z"
  by (induction ds) (auto simp: not_digit_bracket)

lemma is_year_length: "is_year y \<Longrightarrow> length y = 4"
  by (simp add: is_year_def)

lemma PREF_YEAR_PATTERN_iff:
  "PREF_YEAR_PATTERN t = Some y \<longleftrightarrow> (\<exists>w. bracketed_year y w \<and> prefix w t)"
proof
  assume a: "PREF_YEAR_PATTERN t = Some y"
  then obtain rest where t: "t = CHR ''['' # rest"
    by (cases t) (auto split: if_splits)
  from a t have yp: "YEAR_PATTERN rest = Some y"
    by (auto split: option.splits list.splits if_splits)
  then have y: "is_year y" and "prefix y rest" by (simp_all add: YEAR_PATTERN_iff)
  then obtain r where rest: "rest = y @ r" by (auto simp: prefix_def)
  have d4: "drop 4 rest = r" using rest is_year_length[OF y] by simp
  from a t yp d4 obtain e u where r: "r = e # u"
    by (cases r) auto
  from a t yp d4 r consider (close) "e = CHR '']''"
    | (dash) "e = CHR ''-''" "takeWhile is_digit u \<noteq> []" "take 1 (dropWhile is_digit u) = '']''"
    by (auto split: if_splits)
  then show "\<exists>w. bracketed_year y w \<and> prefix w t"
  proof cases
    case close
    have "bracketed_year y (''['' @ y @ '']'')" using y by (simp add: bracketed_year_def)
    moreover have "prefix (''['' @ y @ '']'') t" using t rest r close by simp
    ultimately show ?thesis by blast
  next
    case dash
    define ds where "ds = takeWhile is_digit u"
    obtain z where z: "dropWhile is_digit u = CHR '']'' # z"
      using dash(3) by (cases "dropWhile is_digit u") auto
    have u: "u = ds @ CHR '']'' # z"
      using takeWhile_dropWhile_id[of is_digit u] z ds_def by simp
    have "list_all is_digit ds" unfolding ds_def list_all_iff by (auto dest: set_takeWhileD)
    then have "bracketed_year y (''['' @ y @ ''-'' @ ds @ '']'')"
      using y dash(2) ds_def by (auto simp: bracketed_year_def)
    moreover have "prefix (''['' @ y @ ''-'' @ ds @ '']'') t" using t rest r dash(1) u by simp
    ultimately show ?thesis by blast
  qed
next
  assume "\<exists>w. bracketed_year y w \<and> prefix w t"
  then obtain w z where b: "bracketed_year y w" and t: "t = w @ z" by (auto simp: prefix_def)
  from b have y: "is_year y" by (simp add: bracketed_year_def)
  have yp: "\<And>r. YEAR_PATTERN (y @ r) = Some y" using y by (simp add: YEAR_PATTERN_iff)
  have l: "length y = 4" by (rule is_year_length[OF y])
  from b consider (close) "w = ''['' @ y @ '']''"
    | (dash) ds where "ds \<noteq> []" "list_all is_digit ds" "w = ''['' @ y @ ''-'' @ ds @ '']''"
    by (auto simp: bracketed_year_def)
  then show "PREF_YEAR_PATTERN t = Some y"
  proof cases
    case close
    then have "t = CHR ''['' # (y @ CHR '']'' # z)" using t by simp
    then show ?thesis using yp l by simp
  next
    case dash
    then have "t = CHR ''['' # (y @ CHR ''-'' # (ds @ CHR '']'' # z))" using t by simp
    then show ?thesis using yp l dash(1,2)
      by (simp add: takeWhile_digits dropWhile_digits)
  qed
qed

lemma year_at_iff: "year_at s i \<longleftrightarrow> YEAR_PATTERN (drop i s) \<noteq> None"
  by (auto simp: year_at_def YEAR_PATTERN_iff)

lemma bracket_at_iff: "bracket_at s i \<longleftrightarrow> PREF_YEAR_PATTERN (drop i s) \<noteq> None"
  by (auto simp: bracket_at_def PREF_YEAR_PATTERN_iff)

lemma YEAR_PATTERN_take: "YEAR_PATTERN t = Some y \<Longrightarrow> y = take 4 t"
  by (auto simp: YEAR_PATTERN_iff prefix_def dest: is_year_length)

lemma PREF_YEAR_PATTERN_take: "PREF_YEAR_PATTERN t = Some y \<Longrightarrow> y = take 4 (drop 1 t)"
  by (cases t) (auto split: if_splits option.splits list.splits dest: YEAR_PATTERN_take)

text \<open>
  Claim C7, amended. For every year text: when a bracketed year occurs, the result is the
  year of the leftmost one, and the digits after the dash are dropped; otherwise, when
  four consecutive characters are a 1 or 2 followed by three digits, wherever they stand
  (inside a longer number or next to letters or brackets as well), the result is the
  leftmost such four characters; otherwise there is no result. So \<open>[1987]\<close> gives 1987,
  \<open>Published 1987, reprinted 1999\<close> gives 1987 and \<open>no year\<close> gives nothing.
\<close>

theorem extract_year_prefers_bracketed:
  "extract_year s =
     (if \<exists>i. bracket_at s i
      then Some (digits_val (take 4 (drop (Suc (LEAST i. bracket_at s i)) s)))
      else if \<exists>i. year_at s i
      then Some (digits_val (take 4 (drop (LEAST i. year_at s i) s)))
      else None)
   \<and> extract_year ''[1987]'' = Some 1987
   \<and> extract_year ''Published 1987, reprinted 1999'' = Some 1987
   \<and> extract_year ''no year'' = None"
proof -
  have general: "extract_year s =
     (if \<exists>i. bracket_at s i
      then Some (digits_val (take 4 (drop (Suc (LEAST i. bracket_at s i)) s)))
      else if \<exists>i. year_at s i
      then Some (digits_val (take 4 (drop (LEAST i. year_at s i) s)))
      else None)"
  proof (cases "\<exists>i. bracket_at s i")
    case True
    then obtain i where "PREF_YEAR_PATTERN (drop i s) \<noteq> None" by (auto simp: bracket_at_iff)
    from re_search_Least[of PREF_YEAR_PATTERN, OF this]
    have rs: "re_search PREF_YEAR_PATTERN s = PREF_YEAR_PATTERN (drop (LEAST i. bracket_at s i) s)"
      by (simp add: bracket_at_iff)
    have "bracket_at s (LEAST i. bracket_at s i)" using True by (auto intro: LeastI)
    then obtain y where y: "PREF_YEAR_PATTERN (drop (LEAST i. bracket_at s i) s) = Some y"
      by (auto simp: bracket_at_iff)
    from PREF_YEAR_PATTERN_take[OF y] show ?thesis
      using True rs y by (simp add: extract_year_def)
  next
    case nb: False
    then have none: "re_search PREF_YEAR_PATTERN s = None"
      by (simp add: re_search_None bracket_at_iff)
    show ?thesis
    proof (cases "\<exists>i. year_at s i")
      case True
      then obtain i where "YEAR_PATTERN (drop i s) \<noteq> None" by (auto simp: year_at_iff)
      from re_search_Least[of YEAR_PATTERN, OF this]
      have rs: "re_search YEAR_PATTERN s = YEAR_PATTERN (drop (LEAST i. year_at s i) s)"
        by (simp add: year_at_iff)
      have "year_at s (LEAST i. year_at s i)" using True by (auto intro: LeastI)
      then obtain y where y: "YEAR_PATTERN (drop (LEAST i. year_at s i) s) = Some y"
        by (auto simp: year_at_iff)
      from YEAR_PATTERN_take[OF y] show ?thesis
        using True nb none rs y by (simp add: extract_year_def)
    next
      case False
      then have "re_search YEAR_PATTERN s = None"
        by (simp add: re_search_None year_at_iff)
      then show ?thesis using False nb none by (simp add: extract_year_def)
    qed
  qed
  have e1: "extract_year ''[1987]'' = Some 1987"
    by (simp add: extract_year_def is_digit_def is_year_lead_def digits_val_def digit_val_def)
  have e2: "extract_year ''Published 1987, reprinted 1999'' = Some 1987"
    by (simp add: extract_year_def is_digit_def is_year_lead_def digits_val_def digit_val_def)
  have e3: "extract_year ''no year'' = None"
    by (simp add: extract_year_def is_digit_def is_year_lead_def digits_val_def digit_val_def)
  from general e1 e2 e3 show ?thesis by blast
qed

text \<open>
  Claim C7, as stated, fails where it says that the fallback is the first standalone
  four-digit number: the text \<open>12345\<close> has no bracketed year and no year that stands
  alone (each of its two candidates has a digit beside it), yet the result is 1234.
  The text \<open>[1987a]\<close> has no bracketed year either, and the result is the 1987 inside
  the brackets.
\<close>

theorem year_inside_longer_number:
  "extract_year ''12345'' = Some 1234
   \<and> (\<forall>i. \<not> bracket_at ''12345'' i)
   \<and> (\<forall>i. \<not> standalone_year_at ''12345'' i)
   \<and> extract_year ''[1987a]'' = Some 1987
   \<and> (\<forall>i. \<not> bracket_at ''[1987a]'' i)"
proof -
  have e1: "extract_year ''12345'' = Some 1234"
    by (simp add: extract_year_def is_digit_def is_year_lead_def digits_val_def digit_val_def)
  have e2: "extract_year ''[1987a]'' = Some 1987"
    by (simp add: extract_year_def is_digit_def is_year_lead_def digits_val_def digit_val_def)
  have r1: "re_search PREF_YEAR_PATTERN ''12345'' = None"
    by (simp add: is_digit_def is_year_lead_def)
  have b1: "\<forall>i. \<not> bracket_at ''12345'' i"
  proof (intro allI)
    fix i
    have "PREF_YEAR_PATTERN (drop i ''12345'') = None"
      using r1[unfolded re_search_None] by (rule spec)
    then show "\<not> bracket_at ''12345'' i"
      unfolding bracket_at_iff by (simp only: not_not)
  qed
  have r2: "re_search PREF_YEAR_PATTERN ''[1987a]'' = None"
    by (simp add: is_digit_def is_year_lead_def)
  have b2: "\<forall>i. \<not> bracket_at ''[1987a]'' i"
  proof (intro allI)
    fix i
    have "PREF_YEAR_PATTERN (drop i ''[1987a]'') = None"
      using r2[unfolded re_search_None] by (rule spec)
    then show "\<not> bracket_at ''[1987a]'' i"
      unfolding bracket_at_iff by (simp only: not_not)
  qed
  have s: "\<forall>i. \<not> standalone_year_at ''12345'' i"
  proof
    fix i :: nat
    consider "i = 0" | "i = 1" | "2 \<le> i" by linarith
    then show "\<not> standalone_year_at ''12345'' i"
    proof cases
      case 1
      have "is_digit (''12345'' ! 4)" by (simp add: is_digit_def)
      then show ?thesis unfolding standalone_year_at_def 1 by simp
    next
      case 2
      have "is_digit (''12345'' ! 0)" by (simp add: is_digit_def)
      then show ?thesis unfolding standalone_year_at_def 2 by simp
    next
      case 3
      then have "length (drop i ''12345'') < 4" by simp
      then have "YEAR_PATTERN (drop i ''12345'') = None" by (rule YEAR_PATTERN_short)
      then show ?thesis unfolding standalone_year_at_def year_at_iff by blast
    qed
  qed
  from e1 e2 b1 b2 s show ?thesis by blast
qed

section \<open>Sparse records\<close>

text \<open>
  Claim C6, amended. A record that carries fewer than six keys, whether their values are
  empty or not, is skipped: no reference is created or updated, the change counter and
  the change log keep their values, the skip counter grows by exactly one, no error is
  raised, and the loop goes on with the next record.
\<close>

theorem sparse_record_is_skipped:
  assumes "length (rec_keys r) < 6"
  shows "process_record e r st = Inr (st\<lparr>skipped := skipped st + 1\<rparr>)
       \<and> fold_err (process_record e) (r # rs) st
           = fold_err (process_record e) rs (st\<lparr>skipped := skipped st + 1\<rparr>)
       \<and> (\<forall>st'. process_record e r st = Inr st' \<longrightarrow>
             refs st' = refs st \<and> count st' = count st \<and> changes st' = changes st
             \<and> skipped st' = Suc (skipped st))"
  using assms by (simp add: process_record_def)

theorem sparse_record_is_skipped_witness:
  "length (rec_keys sparse_rec) < 6
   \<and> process_record example_env sparse_rec
        \<lparr>refs = [], known_ids = [], count = 0, skipped = 0, changes = []\<rparr>
      = Inr \<lparr>refs = [], known_ids = [], count = 0, skipped = 1, changes = []\<rparr>
   \<and> main example_env [sparse_rec, sparse_rec] []
      = Inr \<lparr>refs = [], known_ids = [], count = 0, skipped = 2, changes = []\<rparr>"
proof -
  have h: "length (rec_keys sparse_rec) < 6"
    by (simp add: rec_keys_def sparse_rec_def)
  note s = sparse_record_is_skipped[OF h, of example_env]
  have a: "process_record example_env sparse_rec
        \<lparr>refs = [], known_ids = [], count = 0, skipped = 0, changes = []\<rparr>
      = Inr \<lparr>refs = [], known_ids = [], count = 0, skipped = 1, changes = []\<rparr>"
    using s[of "\<lparr>refs = [], known_ids = [], count = 0, skipped = 0, changes = []\<rparr>" "[]"] by simp
  have b: "main example_env [sparse_rec, sparse_rec] []
      = Inr \<lparr>refs = [], known_ids = [], count = 0, skipped = 2, changes = []\<rparr>"
    unfolding main_def
    using s[of "\<lparr>refs = [], known_ids = [], count = 0, skipped = 0, changes = []\<rparr>" "[sparse_rec]"]
          s[of "\<lparr>refs = [], known_ids = [], count = 0, skipped = 1, changes = []\<rparr>" "[]"]
    by simp
  from h a b show ?thesis by blast
qed

section \<open>Inherited sub-classification references\<close>

text \<open>
  Claim C8. For a languoid whose father chain is finite and free of cycles the lookup
  returns. The result is the languoid's own sub-classification references when it has
  any; otherwise it is the result of the lookup on its father, and the empty list when
  there is no father. With a family F that has the reference r1 and a child C of F that
  has none, the lookup on C gives r1.
\<close>

theorem screfs_inherits:
  assumes "chain_ok db l"
  shows "\<exists>res. screfs db l = Some res
       \<and> (crefs_of l ''sc'' \<noteq> [] \<longrightarrow> res = crefs_of l ''sc'')
       \<and> (crefs_of l ''sc'' = [] \<longrightarrow>
            (case father db l of None \<Rightarrow> res = [] | Some f \<Rightarrow> screfs db f = Some res))"
  using assms
proof (induction rule: chain_ok.induct)
  case (root l)
  then show ?case by (subst screfs.simps) simp
next
  case (step l f)
  then obtain res where "screfs db f = Some res" by blast
  with step.hyps(1) show ?case by (subst screfs.simps) simp
qed

theorem screfs_inherits_witness:
  "chain_ok [(1, family_F), (2, child_C)] child_C
   \<and> screfs [(1, family_F), (2, child_C)] child_C = Some [ValueSetReference 10]
   \<and> screfs [(1, family_F), (2, child_C)] family_F = Some [ValueSetReference 10]
   \<and> screfs [(2, child_C)] \<lparr>lpk = 3, father_pk = None, valuesets = []\<rparr> = Some []"
proof -
  let ?db = "[(1, family_F), (2, child_C)]"
  have fF: "father ?db family_F = None" by (simp add: father_def family_F_def)
  have fC: "father ?db child_C = Some family_F" by (simp add: father_def child_C_def)
  have okF: "chain_ok ?db family_F" by (rule chain_ok.root[OF fF])
  have okC: "chain_ok ?db child_C" by (rule chain_ok.step[OF fC okF])
  have cF: "crefs_of family_F ''sc'' = [ValueSetReference 10]"
    by (simp add: crefs_of_def classification_def family_F_def)
  have cC: "crefs_of child_C ''sc'' = []"
    by (simp add: crefs_of_def classification_def child_C_def)
  have rF: "screfs ?db family_F = Some [ValueSetReference 10]"
    using screfs_inherits[OF okF] cF by auto
  have rC: "screfs ?db child_C = Some [ValueSetReference 10]"
    using screfs_inherits[OF okC] cC fC rF by auto
  let ?root = "\<lparr>lpk = 3, father_pk = None, valuesets = []\<rparr>"
  have fr: "father [(2, child_C)] ?root = None" by (simp add: father_def)
  have "crefs_of ?root ''sc'' = []" by (simp add: crefs_of_def classification_def)
  then have rr: "screfs [(2, child_C)] ?root = Some []"
    using screfs_inherits[OF chain_ok.root[OF fr]] fr by auto
  from okC rC rF rr show ?thesis by blast
qed

section \<open>The examples, evaluated\<close>

lemma example_env_sel:
  "unescape example_env = (\<lambda>s. s)"
  "slug example_env = (\<lambda>s. s)"
  "provider_map example_env =
     map_of [(''hh'', Entity ''hh''), (''sil'', Entity ''sil''), (''wals'', Entity ''wals'')]"
  "macroarea_map example_env = map_of [(''Africa'', Entity ''africa'')]"
  "doctype_map example_env = map_of [(''grammar'', Entity ''grammar'')]"
  "mode example_env = ''update''"
  by (simp_all add: example_env_def)

lemmas reconcile_eval = reconcile_def tag_names_def get_default_def strip_def is_space_def
  update_relationship_def providers_step_def append_entity_def DOCTYPE_PATTERN_def is_name_char_def

lemmas update_eval = update_field_def mirror_title_def getattr_def setattr_def update_jsondata_def
  ref_jsondata_def log_change_def dict_eq_def summary_strs_def lgcode_step_def kw_jsondata_def create_ref_def

lemma pages_rec_parsed:
  "parse_record example_env pages_rec 7 =
     Inr [(''pk'', PyInt 7), (''bibtex_type'', PyStr ''book''), (''id'', PyStr ''7''),
          (''jsondata'', PyDict [(''bibtexkey'', ''doe1987''), (''glottolog_ref_id'', ''7''),
                                 (''numberofpages'', ''100'')]),
          (''author'', PyStr ''Doe''), (''pages'', PyStr ''12-34''), (''title'', PyStr ''T''),
          (''year'', PyStr ''1987''), (''pages_int'', PyInt 23), (''year_int'', PyInt 1987),
          (''startpage_int'', PyInt 12), (''endpage_int'', PyInt 34)]"
  by code_simp

lemma roman_rec_parsed:
  "parse_record example_env roman_rec 7 =
     Inr [(''pk'', PyInt 7), (''bibtex_type'', PyStr ''book''), (''id'', PyStr ''7''),
          (''jsondata'', PyDict [(''bibtexkey'', ''doe1987''), (''glottolog_ref_id'', ''7''),
                                 (''numberofpages'', ''100'')]),
          (''author'', PyStr ''Doe''), (''pages'', PyStr ''xii+34''), (''title'', PyStr ''T''),
          (''year'', PyStr ''1987''), (''pages_int'', PyInt 100), (''year_int'', PyInt 1987)]"
  by code_simp

lemma pages_rec_created:
  "merge_ref example_env None [] pages_rec 7 = Inr (created_ref, True, [])"
  by (simp add: merge_ref_def pages_rec_parsed reconcile_eval update_eval example_env_sel created_ref_def)

lemma pages_rec_updated:
  "merge_ref example_env (Some created_ref) [] pages_rec 7 =
     Inr (created_ref\<lparr>attrs := attrs created_ref @ [(''description'', PyStr ''T'')]\<rparr>, False, [])"
  by (simp add: merge_ref_def pages_rec_parsed reconcile_eval update_eval example_env_sel created_ref_def)

section \<open>The total number of pages\<close>

text \<open>
  When the page text has no Roman and Arabic pair, the total that \<open>compute_pages\<close> returns
  is stored whatever \<open>pages_int\<close> held before; when it has such a pair, a \<open>pages_int\<close> that
  is already there stays.
\<close>

lemma pages_step_page_range_overrides:
  assumes "kw_text kw ''pages'' = Some p"
      and "re_search ROMANPAGESPATTERNra p = None" and "re_search ROMANPAGESPATTERNar p = None"
      and "compute_pages e p = (start, end, Some n)"
  shows "map_of (pages_step e kw) ''pages_int'' = Some (PyInt n)"
  using assms by (simp add: pages_step_def set_if_def update_conv')

lemma pages_step_roman_keeps:
  assumes "kw_text kw ''pages'' = Some p"
      and "re_search ROMANPAGESPATTERNra p = Some m"
      and "map_of kw ''pages_int'' = Some v"
  shows "pages_step e kw = kw"
  using assms by (cases m) (simp add: pages_step_def)

text \<open>
  Claim C3 says that a numeric \<open>numberofpages\<close> field always gives the total number of
  pages. The script keeps it against the Roman and Arabic pair only: for the record with
  \<open>numberofpages = 100\<close> and \<open>pages = 12-34\<close> the total is the 23 of the page range, while
  with \<open>pages = xii+34\<close> it is 100.
\<close>

theorem numberofpages_overridden_by_page_range:
  "rec_get pages_rec ''numberofpages'' = Some ''100''
   \<and> py_int (strip ''100'') = Some 100
   \<and> (\<exists>kw. parse_record example_env pages_rec 7 = Inr kw
          \<and> map_of kw ''pages'' = Some (PyStr ''12-34'')
          \<and> map_of kw ''pages_int'' = Some (PyInt 23))
   \<and> (\<exists>kw. parse_record example_env roman_rec 7 = Inr kw
          \<and> map_of kw ''pages'' = Some (PyStr ''xii+34'')
          \<and> map_of kw ''pages_int'' = Some (PyInt 100))"
proof -
  have a: "rec_get pages_rec ''numberofpages'' = Some ''100''"
    by (simp add: rec_get_def pages_rec_def)
  have b: "py_int (strip ''100'') = Some 100"
    by (simp add: py_int_def strip_def is_space_def is_digit_def digits_val_def digit_val_def)
  show ?thesis using a b by (simp add: pages_rec_parsed roman_rec_parsed)
qed

section \<open>Title and description\<close>

text \<open>
  Claim C5 says that the description equals the title on the create path as on the
  update path. The reference created from a record with the title \<open>T\<close> has no
  description; processing the same record again, on the update path, sets it.
\<close>

theorem created_reference_lacks_description:
  "\<exists>r ch. merge_ref example_env None [] pages_rec 7 = Inr (r, True, ch)
      \<and> getattr r ''title'' = PyStr ''T''
      \<and> getattr r ''description'' = PyNone
      \<and> (\<exists>r' c ch'. merge_ref example_env (Some r) [] pages_rec 7 = Inr (r', c, ch')
            \<and> getattr r' ''title'' = PyStr ''T''
            \<and> getattr r' ''description'' = PyStr ''T'')"
proof -
  have t: "getattr created_ref ''title'' = PyStr ''T''"
    and d: "getattr created_ref ''description'' = PyNone"
    by (simp_all add: getattr_def created_ref_def)
  let ?r' = "created_ref\<lparr>attrs := attrs created_ref @ [(''description'', PyStr ''T'')]\<rparr>"
  have t': "getattr ?r' ''title'' = PyStr ''T''"
    and d': "getattr ?r' ''description'' = PyStr ''T''"
    by (simp_all add: getattr_def created_ref_def)
  from pages_rec_created pages_rec_updated t d t' d' show ?thesis by blast
qed

section \<open>Publisher and address\<close>

lemma addr_rec_parsed:
  "parse_record example_env addr_rec 7 =
     Inr [(''pk'', PyInt 7), (''bibtex_type'', PyStr ''book''), (''id'', PyStr ''7''),
          (''jsondata'', PyDict [(''bibtexkey'', ''doe1987''), (''glottolog_ref_id'', ''7'')]),
          (''address'', PyStr ''Leipzig''), (''author'', PyStr ''Doe''),
          (''publisher'', PyStr ''Berlin: Mouton''), (''title'', PyStr ''T''),
          (''year'', PyStr ''1987''), (''year_int'', PyInt 1987)]"
  by code_simp

lemma split_once_first:
  assumes "sep \<notin> set pre"
  shows "split_once sep (pre @ sep # post) = (pre, post)"
proof -
  have "takeWhile (\<lambda>c. c \<noteq> sep) (pre @ sep # post) = pre"
    using assms by (induction pre) auto
  moreover have "dropWhile (\<lambda>c. c \<noteq> sep) (pre @ sep # post) = sep # post"
    using assms by (induction pre) auto
  ultimately show ?thesis by (simp add: split_once_def)
qed

text \<open>
  Claim C4, as stated, fails where it says that the publisher part is still extracted
  beside an address that differs: for the address \<open>Leipzig\<close> and the publisher text
  \<open>Berlin: Mouton\<close> the address stays and the publisher text stays whole.
\<close>

theorem publisher_not_split_beside_other_address:
  "\<exists>kw. parse_record example_env addr_rec 7 = Inr kw
      \<and> map_of kw ''address'' = Some (PyStr ''Leipzig'')
      \<and> map_of kw ''publisher'' = Some (PyStr ''Berlin: Mouton'')
      \<and> map_of kw ''publisher'' \<noteq> Some (PyStr ''Mouton'')"
  by (simp add: addr_rec_parsed)

text \<open>
  Claim C4, amended. A publisher text with a colon is split once at its first colon, and
  both parts are trimmed. When there is no address yet, or the address equals the
  trimmed first part, the address becomes the first part and the publisher the second,
  and nothing else changes. When an address is there and differs, nothing is changed:
  the address stays and the publisher keeps the whole text.
\<close>

theorem publisher_split_guarded:
  assumes "map_of kw ''publisher'' = Some (PyStr (pre @ CHR '':'' # post))"
      and "CHR '':'' \<notin> set pre"
  shows "if map_of kw ''address'' = None \<or> map_of kw ''address'' = Some (PyStr (strip pre))
         then map_of (publisher_step kw)
              = (map_of kw)(''address'' \<mapsto> PyStr (strip pre), ''publisher'' \<mapsto> PyStr (strip post))
         else publisher_step kw = kw"
proof -
  have t: "kw_text kw ''publisher'' = Some (pre @ CHR '':'' # post)"
    using assms(1) by (simp add: kw_text_def)
  have s: "split_once CHR '':'' (pre @ CHR '':'' # post) = (pre, post)"
    by (rule split_once_first[OF assms(2)])
  show ?thesis
    unfolding publisher_step_def t
    by (auto simp: s Let_def update_conv' fun_eq_iff)
qed

theorem publisher_split_guarded_witness:
  "map_of (publisher_step [(''publisher'', PyStr ''Berlin: Mouton'')]) ''address''
     = Some (PyStr ''Berlin'')
   \<and> map_of (publisher_step [(''publisher'', PyStr ''Berlin: Mouton'')]) ''publisher''
     = Some (PyStr ''Mouton'')
   \<and> publisher_step [(''address'', PyStr ''Leipzig''), (''publisher'', PyStr ''Berlin: Mouton'')]
     = [(''address'', PyStr ''Leipzig''), (''publisher'', PyStr ''Berlin: Mouton'')]
   \<and> map_of (publisher_step [(''address'', PyStr ''Berlin''), (''publisher'', PyStr ''Berlin: Mouton'')])
       ''publisher'' = Some (PyStr ''Mouton'')"
proof -
  have st: "strip ''Berlin'' = ''Berlin''" "strip '' Mouton'' = ''Mouton''"
    by (simp_all add: strip_def is_space_def)
  have c: "CHR '':'' \<notin> set ''Berlin''" by simp
  have a: "map_of [(''publisher'', PyStr ''Berlin: Mouton'')] ''publisher''
             = Some (PyStr (''Berlin'' @ CHR '':'' # '' Mouton''))" by simp
  have b: "map_of [(''address'', PyStr ''Leipzig''), (''publisher'', PyStr ''Berlin: Mouton'')] ''publisher''
             = Some (PyStr (''Berlin'' @ CHR '':'' # '' Mouton''))" by simp
  have d: "map_of [(''address'', PyStr ''Berlin''), (''publisher'', PyStr ''Berlin: Mouton'')] ''publisher''
             = Some (PyStr (''Berlin'' @ CHR '':'' # '' Mouton''))" by simp
  show ?thesis
    using publisher_split_guarded[OF a c] publisher_split_guarded[OF b c]
      publisher_split_guarded[OF d c]
    by (simp add: st)
qed

section \<open>The side-bag of a record\<close>

text \<open>The field map has every source key once, and its targets are known keys.\<close>

lemma FIELD_MAP_sorted: "successively (<) (map fst FIELD_MAP)"
  by code_simp

lemma FIELD_MAP_distinct: "distinct (map fst FIELD_MAP)"
proof -
  have "transp ((<) :: string \<Rightarrow> string \<Rightarrow> bool)" by (rule transp_on_less)
  then have "sorted_wrt (<) (map fst FIELD_MAP)"
    using FIELD_MAP_sorted successively_conv_sorted_wrt by blast
  then show ?thesis using strict_sorted_iff by blast
qed

lemma FIELD_MAP_targets:
  "list_all (\<lambda>st. snd st = [] \<or> snd st \<in> set KW_KEYS \<and> snd st \<noteq> ''jsondata'') FIELD_MAP"
  by code_simp

lemma fold_err_invariant:
  assumes "fold_err f xs s = Inr s'" and "P s"
      and "\<And>x a b. x \<in> set xs \<Longrightarrow> P a \<Longrightarrow> f x a = Inr b \<Longrightarrow> P b"
  shows "P s'"
  using assms
proof (induction xs arbitrary: s)
  case Nil
  then show ?case by simp
next
  case (Cons x xs)
  from Cons.prems(1) obtain a where a: "f x s = Inr a" and r: "fold_err f xs a = Inr s'"
    by (auto split: sum.splits)
  have "P a" using Cons.prems(2,3) a by auto
  then show ?case using Cons.IH[OF r] Cons.prems(3) by auto
qed

lemma kw_jsondata_update_other:
  "k \<noteq> ''jsondata'' \<Longrightarrow> kw_jsondata (AList.update k v kw) = kw_jsondata kw"
  by (simp add: kw_jsondata_def update_conv')

lemma kw_jsondata_update_self:
  "kw_jsondata (AList.update ''jsondata'' (PyDict d) kw) = d"
  by (simp add: kw_jsondata_def update_conv')

lemma populated_text:
  "populated r k \<longleftrightarrow> (\<exists>v. rec_get r k = Some v \<and> v \<noteq> [])"
  by (auto simp: populated_def split: option.splits)

lemma field_step_jsondata:
  assumes "field_step e r st kw = Inr kw'" and "snd st \<noteq> ''jsondata''"
  shows "map_of (kw_jsondata kw') k =
           (if snd st = [] \<and> k = fst st \<and> populated r k then Some (rec_text e r k)
            else map_of (kw_jsondata kw) k)"
  using assms
  by (auto simp: field_step_def populated_def rec_text_def get_default_def rec_get_def Let_def
        kw_jsondata_update_other kw_jsondata_update_self update_conv'
      split: option.splits if_splits sum.splits)

lemma fold_field_step_jsondata:
  assumes "fold_err (field_step e r) fm kw = Inr kw'"
      and "\<forall>st \<in> set fm. snd st \<noteq> ''jsondata''"
  shows "map_of (kw_jsondata kw') k =
           (if (k, []) \<in> set fm \<and> populated r k then Some (rec_text e r k)
            else map_of (kw_jsondata kw) k)"
  using assms
proof (induction fm arbitrary: kw)
  case Nil
  then show ?case by simp
next
  case (Cons st fm)
  from Cons.prems(1) obtain a where a: "field_step e r st kw = Inr a"
    and r: "fold_err (field_step e r) fm a = Inr kw'"
    by (auto split: sum.splits)
  have s: "snd st \<noteq> ''jsondata''" using Cons.prems(2) by simp
  have ih: "map_of (kw_jsondata kw') k =
           (if (k, []) \<in> set fm \<and> populated r k then Some (rec_text e r k)
            else map_of (kw_jsondata a) k)"
    using Cons.IH[OF r] Cons.prems(2) by simp
  show ?case
    unfolding ih field_step_jsondata[OF a s]
    by (cases st) auto
qed

lemma FIELD_MAP_no_jsondata: "\<forall>st \<in> set FIELD_MAP. snd st \<noteq> ''jsondata''"
  using FIELD_MAP_targets by (auto simp: list_all_iff)

lemma kw_jsondata_init: "kw_jsondata (kw_init r pk) = [(''bibtexkey'', rec_id r)]"
  by (simp add: kw_jsondata_def kw_init_def)

lemma numberofpages_step_jsondata: "kw_jsondata (numberofpages_step r kw) = kw_jsondata kw"
  by (simp add: numberofpages_step_def kw_jsondata_update_other split: option.splits)

lemma year_step_jsondata: "kw_jsondata (year_step kw) = kw_jsondata kw"
  by (simp add: year_step_def kw_jsondata_update_other split: option.splits)

lemma publisher_step_jsondata: "kw_jsondata (publisher_step kw) = kw_jsondata kw"
  by (simp add: publisher_step_def kw_jsondata_update_other Let_def split: option.splits)

lemma set_if_jsondata: "k \<noteq> ''jsondata'' \<Longrightarrow> kw_jsondata (set_if k v kw) = kw_jsondata kw"
  by (simp add: set_if_def kw_jsondata_update_other split: option.splits)

lemma pages_step_jsondata: "kw_jsondata (pages_step e kw) = kw_jsondata kw"
  by (simp add: pages_step_def kw_jsondata_update_other set_if_jsondata
      split: option.splits prod.splits)

lemma parse_record_jsondata:
  assumes "parse_record e r pk = Inr kw"
  shows "map_of (kw_jsondata kw) k =
           (if (k, []) \<in> set FIELD_MAP \<and> populated r k then Some (rec_text e r k)
            else if k = ''bibtexkey'' then Some (rec_id r) else None)"
proof -
  from assms obtain kw0 where f: "fold_err (field_step e r) FIELD_MAP (kw_init r pk) = Inr kw0"
    and kw: "kw = pages_step e (publisher_step (year_step (numberofpages_step r kw0)))"
    by (auto simp: parse_record_def split: sum.splits)
  have "kw_jsondata kw = kw_jsondata kw0"
    by (simp add: kw pages_step_jsondata publisher_step_jsondata year_step_jsondata
        numberofpages_step_jsondata)
  then show ?thesis
    using fold_field_step_jsondata[OF f FIELD_MAP_no_jsondata, of k]
    by (simp add: kw_jsondata_init)
qed

lemma lgcode_step_lookup:
  "map_of (lgcode_step jd) k =
     (if k = ''lgcode'' \<and> length (get_default jd ''lgcode'' []) = 3
      then Some (''['' @ get_default jd ''lgcode'' [] @ '']'')
      else map_of jd k)"
  by (simp add: lgcode_step_def update_conv')

lemma lg_rec_parsed:
  "parse_record example_env lg_rec 7 =
     Inr [(''pk'', PyInt 7), (''bibtex_type'', PyStr ''book''), (''id'', PyStr ''7''),
          (''jsondata'', PyDict [(''bibtexkey'', ''doe1987''), (''glottolog_ref_id'', ''7''),
                                 (''lgcode'', ''abc'')]),
          (''author'', PyStr ''Doe''), (''title'', PyStr ''T''),
          (''year'', PyStr ''1987''), (''year_int'', PyInt 1987)]"
  by code_simp

lemma has_target_not_unmapped: "has_target k \<Longrightarrow> \<not> unmapped k"
proof
  assume h: "has_target k" and u: "unmapped k"
  from h obtain t where t: "(k, t) \<in> set FIELD_MAP" "t \<noteq> []"
    by (auto simp: has_target_def)
  from u have "(k, []) \<in> set FIELD_MAP" by (simp add: unmapped_def)
  with t(1) FIELD_MAP_distinct have "t = []"
    by (meson eq_key_imp_eq_value)
  with t(2) show False by simp
qed

lemma bibtexkey_no_target: "\<not> has_target ''bibtexkey''"
  by code_simp

lemma lgcode_unmapped: "unmapped ''lgcode''"
  by code_simp

lemma lg_rec_facts:
  "populated lg_rec ''foo''" "\<not> populated lg_rec ''bibtexkey''" "\<not> populated lg_rec ''title_english''"
  "populated lg_rec ''lgcode''" "populated lg_rec ''title''"
  "rec_text example_env lg_rec ''lgcode'' = ''abc''"
  "rec_text example_env lg_rec ''title'' = ''T''"
  "rec_id lg_rec = ''doe1987''"
  by (simp_all add: populated_def rec_get_def rec_text_def get_default_def lg_rec_def example_env_sel)

lemma unmapped_facts:
  "unmapped ''lgcode''" "\<not> unmapped ''foo''" "\<not> unmapped ''title''" "\<not> unmapped ''bibtexkey''"
  "\<not> has_target ''foo''" "has_target ''title''" "unmapped ''title_english''"
  by code_simp+

section \<open>Relationship reconciliation only appends\<close>

lemma update_relationship_props:
  assumes "update_relationship ex des = (col, added, rm)"
  shows "col = ex @ added" "distinct added" "set added = set des - set ex"
    "rm \<longleftrightarrow> \<not> set ex \<subseteq> set des"
  using assms by (auto simp: update_relationship_def Let_def)

lemma lookup_all_map_filter:
  "lookup_all m ns = Inr xs \<Longrightarrow> xs = List.map_filter m ns"
  by (induction ns arbitrary: xs) (auto simp: List.map_filter_simps split: option.splits sum.splits)

lemma providers_fold:
  assumes "fold_err (providers_step e) ns (ps, c) = Inr (ps', c')"
  shows "\<exists>added. ps' = ps @ added \<and> distinct added
           \<and> set added = set (List.map_filter (\<lambda>n. provider_map e (slug e n)) ns) - set ps
           \<and> (c' \<longleftrightarrow> c \<or> added \<noteq> [])"
  using assms
proof (induction ns arbitrary: ps c)
  case Nil
  then show ?case by (simp add: List.map_filter_simps)
next
  case (Cons n ns)
  from Cons.prems obtain obj where obj: "provider_map e (slug e n) = Some obj"
    by (auto simp: providers_step_def split: option.splits)
  let ?ps1 = "fst (append_entity ps obj)" and ?c1 = "c \<or> snd (append_entity ps obj)"
  have st: "providers_step e n (ps, c) = Inr (?ps1, ?c1)"
    using obj by (simp add: providers_step_def)
  with Cons.prems have r: "fold_err (providers_step e) ns (?ps1, ?c1) = Inr (ps', c')"
    by simp
  from Cons.IH[OF r] obtain added where a: "ps' = ?ps1 @ added" "distinct added"
    "set added = set (List.map_filter (\<lambda>n. provider_map e (slug e n)) ns) - set ?ps1"
    "c' \<longleftrightarrow> ?c1 \<or> added \<noteq> []" by blast
  show ?case
  proof (cases "obj \<in> set ps")
    case True
    then have "?ps1 = ps" "\<not> snd (append_entity ps obj)" by (simp_all add: append_entity_def)
    with a obj True show ?thesis
      by (intro exI[of _ added]) (auto simp: List.map_filter_simps)
  next
    case False
    then have p: "?ps1 = ps @ [obj]" "snd (append_entity ps obj)" by (simp_all add: append_entity_def)
    with a obj False show ?thesis
      by (intro exI[of _ "obj # added"]) (auto simp: List.map_filter_simps)
  qed
qed

lemma reconcile_props:
  assumes "reconcile e jd (r, c) = Inr (r', c')"
  shows "appended_only (macroareas r) (desired_macroareas e jd) (macroareas r')"
    and "appended_only (providers r) (desired_providers e jd) (providers r')"
    and "appended_only (doctypes r) (desired_doctypes e jd) (doctypes r')"
    and "attrs r' = attrs r"
    and "c' \<longleftrightarrow> c \<or> macroareas r' \<noteq> macroareas r \<or> providers r' \<noteq> providers r
           \<or> doctypes r' \<noteq> doctypes r
           \<or> \<not> set (macroareas r) \<subseteq> set (desired_macroareas e jd)
           \<or> \<not> set (doctypes r) \<subseteq> set (desired_doctypes e jd)"
proof -
  from assms obtain ms where ms: "lookup_all (macroarea_map e) (tag_names (get_default jd ''macro_area'' [])) = Inr ms"
    by (auto simp: reconcile_def split: sum.splits)
  obtain mcol ma mr where um: "update_relationship (macroareas r) ms = (mcol, ma, mr)"
    by (cases "update_relationship (macroareas r) ms") auto
  from assms ms um obtain pcol c1 where
    pf: "fold_err (providers_step e) (tag_names (get_default jd ''src'' []))
           (providers r, c \<or> ma \<noteq> [] \<or> mr) = Inr (pcol, c1)"
    by (auto simp: reconcile_def split: sum.splits)
  from assms ms um pf obtain ds where ds: "lookup_all (doctype_map e) (finditer_names (get_default jd ''hhtype'' [])) = Inr ds"
    by (auto simp: reconcile_def split: sum.splits)
  obtain dcol da dr where ud: "update_relationship (doctypes r) ds = (dcol, da, dr)"
    by (cases "update_relationship (doctypes r) ds") auto
  from assms ms um pf ds ud have r': "r' = r\<lparr>macroareas := mcol, providers := pcol, doctypes := dcol\<rparr>"
    and c': "c' \<longleftrightarrow> c1 \<or> da \<noteq> [] \<or> dr"
    by (auto simp: reconcile_def)
  have dm: "ms = desired_macroareas e jd" using lookup_all_map_filter[OF ms] by (simp add: desired_macroareas_def)
  have dd: "ds = desired_doctypes e jd" using lookup_all_map_filter[OF ds] by (simp add: desired_doctypes_def)
  note pm = update_relationship_props[OF um] and pd = update_relationship_props[OF ud]
  from providers_fold[OF pf] obtain pa where pa: "pcol = providers r @ pa" "distinct pa"
    "set pa = set (desired_providers e jd) - set (providers r)"
    "c1 \<longleftrightarrow> (c \<or> ma \<noteq> [] \<or> mr) \<or> pa \<noteq> []"
    by (auto simp: desired_providers_def)
  show "appended_only (macroareas r) (desired_macroareas e jd) (macroareas r')"
    using pm r' dm by (auto simp: appended_only_def)
  show "appended_only (providers r) (desired_providers e jd) (providers r')"
    using pa r' unfolding appended_only_def by (intro exI[of _ pa]) simp
  show "appended_only (doctypes r) (desired_doctypes e jd) (doctypes r')"
    using pd r' dd by (auto simp: appended_only_def)
  show "attrs r' = attrs r" using r' by simp
  show "c' \<longleftrightarrow> c \<or> macroareas r' \<noteq> macroareas r \<or> providers r' \<noteq> providers r
           \<or> doctypes r' \<noteq> doctypes r
           \<or> \<not> set (macroareas r) \<subseteq> set (desired_macroareas e jd)
           \<or> \<not> set (doctypes r) \<subseteq> set (desired_doctypes e jd)"
    using c' pa(1,4) pm(1,4) pd(1,4) r' dm dd by auto
qed

lemma update_field_collections:
  "macroareas (fst (update_field kv s)) = macroareas (fst s)"
  "providers (fst (update_field kv s)) = providers (fst s)"
  "doctypes (fst (update_field kv s)) = doctypes (fst s)"
  by (auto simp: update_field_def mirror_title_def setattr_def update_jsondata_def split: prod.splits)

lemma fold_update_field_collections:
  "macroareas (fst (fold update_field kw s)) = macroareas (fst s)
   \<and> providers (fst (fold update_field kw s)) = providers (fst s)
   \<and> doctypes (fst (fold update_field kw s)) = doctypes (fst s)"
  by (induction kw arbitrary: s) (simp_all add: update_field_collections)

lemma summary_strs_collections:
  "macroareas (summary_strs r) = macroareas r" "providers (summary_strs r) = providers r"
  "doctypes (summary_strs r) = doctypes r"
  by (simp_all add: summary_strs_def setattr_def)

lemma merge_ref_cases:
  assumes "merge_ref e existing ch r pk = Inr (ref', changed, ch')"
  obtains kw ref1 c1 ref2 where "parse_record e r pk = Inr kw"
    and "(case existing of Some ref0 \<Rightarrow> fold update_field kw (ref0, False, ch)
            | None \<Rightarrow> (create_ref kw, True, ch)) = (ref1, c1, ch')"
    and "reconcile e (kw_jsondata kw) (ref1, c1) = Inr (ref2, changed)"
    and "ref' = (let ref3 = (if existing = None
                     then setattr ref2 ''jsondata'' (PyDict (lgcode_step (kw_jsondata kw)))
                     else ref2)
                 in if changed then summary_strs ref3 else ref3)"
  using assms unfolding merge_ref_def
  by (auto split: sum.splits prod.splits simp: Let_def)

lemma src_rec_parsed:
  "parse_record example_env src_rec 7 =
     Inr [(''pk'', PyInt 7), (''bibtex_type'', PyStr ''book''), (''id'', PyStr ''7''),
          (''jsondata'', PyDict [(''bibtexkey'', ''doe1987''), (''glottolog_ref_id'', ''7''),
                                 (''numberofpages'', ''100''), (''src'', ''sil, wals'')]),
          (''author'', PyStr ''Doe''), (''pages'', PyStr ''12-34''), (''title'', PyStr ''T''),
          (''year'', PyStr ''1987''), (''pages_int'', PyInt 23), (''year_int'', PyInt 1987),
          (''startpage_int'', PyInt 12), (''endpage_int'', PyInt 34)]"
  by code_simp

lemma src_rec_merged:
  "\<exists>ref'. merge_ref example_env (Some ref_AB) [] src_rec 7 = Inr (ref', True, [])
      \<and> providers ref' = [Entity ''hh'', Entity ''sil'', Entity ''wals'']
      \<and> macroareas ref' = [] \<and> doctypes ref' = []
      \<and> getattr ref' ''providers_str'' = PyStr ''hh, sil, wals''"
  by (simp add: merge_ref_def src_rec_parsed reconcile_eval update_eval example_env_sel
      created_ref_def ref_AB_def)

text \<open>
  Claim C1. When a record is merged into a reference, each of the three collections
  (macro-areas, providers, doctypes) afterwards is the collection before, in its order,
  followed by the desired members that it lacked, each once: nothing is removed and
  nothing is appended twice. With the providers \<open>hh\<close> and \<open>sil\<close> before and \<open>sil\<close> and
  \<open>wals\<close> desired, the providers afterwards are \<open>hh\<close>, \<open>sil\<close> and \<open>wals\<close>.
\<close>

theorem reconciliation_only_appends:
  assumes "merge_ref e existing ch r pk = Inr (ref', changed, ch')"
  shows "\<exists>kw. parse_record e r pk = Inr kw
     \<and> appended_only (macroareas (old_ref existing)) (desired_macroareas e (kw_jsondata kw))
          (macroareas ref')
     \<and> appended_only (providers (old_ref existing)) (desired_providers e (kw_jsondata kw))
          (providers ref')
     \<and> appended_only (doctypes (old_ref existing)) (desired_doctypes e (kw_jsondata kw))
          (doctypes ref')"
proof -
  from assms obtain kw ref1 c1 ref2 where p: "parse_record e r pk = Inr kw"
    and u: "(case existing of Some ref0 \<Rightarrow> fold update_field kw (ref0, False, ch)
            | None \<Rightarrow> (create_ref kw, True, ch)) = (ref1, c1, ch')"
    and rc: "reconcile e (kw_jsondata kw) (ref1, c1) = Inr (ref2, changed)"
    and r': "ref' = (let ref3 = (if existing = None
                     then setattr ref2 ''jsondata'' (PyDict (lgcode_step (kw_jsondata kw)))
                     else ref2)
                 in if changed then summary_strs ref3 else ref3)"
    by (rule merge_ref_cases)
  have o: "macroareas ref1 = macroareas (old_ref existing)"
    "providers ref1 = providers (old_ref existing)"
    "doctypes ref1 = doctypes (old_ref existing)"
    using u fold_update_field_collections[of kw "(the existing, False, ch)"]
    by (auto simp: old_ref_def create_ref_def split: option.splits)
  have n: "macroareas ref' = macroareas ref2" "providers ref' = providers ref2"
    "doctypes ref' = doctypes ref2"
    using r' by (auto simp: Let_def summary_strs_collections setattr_def)
  from reconcile_props(1-3)[OF rc] p show ?thesis
    unfolding o n by blast
qed

theorem reconciliation_only_appends_witness:
  "\<exists>ref' kw. merge_ref example_env (Some ref_AB) [] src_rec 7 = Inr (ref', True, [])
      \<and> parse_record example_env src_rec 7 = Inr kw
      \<and> providers ref_AB = [Entity ''hh'', Entity ''sil'']
      \<and> desired_providers example_env (kw_jsondata kw) = [Entity ''sil'', Entity ''wals'']
      \<and> providers ref' = [Entity ''hh'', Entity ''sil'', Entity ''wals'']
      \<and> appended_only (providers ref_AB) (desired_providers example_env (kw_jsondata kw))
           (providers ref')
      \<and> appended_only (macroareas ref_AB) (desired_macroareas example_env (kw_jsondata kw))
           (macroareas ref')
      \<and> appended_only (doctypes ref_AB) (desired_doctypes example_env (kw_jsondata kw))
           (doctypes ref')"
proof -
  from src_rec_merged obtain ref' where
    m: "merge_ref example_env (Some ref_AB) [] src_rec 7 = Inr (ref', True, [])"
    and p: "providers ref' = [Entity ''hh'', Entity ''sil'', Entity ''wals'']" by blast
  have d: "desired_providers example_env
             (kw_jsondata (projr (parse_record example_env src_rec 7)))
           = [Entity ''sil'', Entity ''wals'']"
    by (simp add: src_rec_parsed desired_providers_def kw_jsondata_def tag_names_def
        get_default_def strip_def is_space_def example_env_sel List.map_filter_simps)
  have ab: "providers ref_AB = [Entity ''hh'', Entity ''sil'']" by (simp add: ref_AB_def)
  from reconciliation_only_appends[OF m] m p d ab show ?thesis
    by (auto simp: old_ref_def src_rec_parsed)
qed

section \<open>The update path\<close>

lemma getattr_setattr: "getattr (setattr r k v) k' = (if k' = k then v else getattr r k')"
  by (simp add: getattr_def setattr_def update_conv')

lemma getattr_mirror_title:
  "getattr (mirror_title r) k =
     (if k = ''description'' \<and> truthy (getattr r ''title'') then getattr r ''title''
      else getattr r k)"
  by (simp add: mirror_title_def getattr_setattr)

lemma getattr_update_jsondata:
  "k \<noteq> ''jsondata'' \<Longrightarrow> getattr (update_jsondata r d) k = getattr r k"
  by (simp add: update_jsondata_def getattr_setattr)

lemma dict_eq_iff: "dict_eq a b \<longleftrightarrow> map_of a = map_of b"
proof
  assume d: "dict_eq a b"
  show "map_of a = map_of b"
  proof
    fix k
    show "map_of a k = map_of b k"
    proof (cases "k \<in> fst ` set a \<union> fst ` set b")
      case True
      with d show ?thesis by (auto simp: dict_eq_def list_all_iff)
    next
      case False
      then have "map_of a k = None" "map_of b k = None"
        by (simp_all add: map_of_eq_None_iff)
      then show ?thesis by simp
    qed
  qed
next
  assume "map_of a = map_of b"
  then show "dict_eq a b" by (simp add: dict_eq_def list_all_iff)
qed

lemma py_ne_refl: "\<not> py_ne v v"
  by (cases v) (simp_all add: dict_eq_iff)

text \<open>One pass of the body of the loop, attribute by attribute.\<close>

lemma update_field_getattr:
  assumes "k \<noteq> ''description''" and "k \<noteq> ''jsondata''"
  shows "getattr (fst (update_field kv (r, c, ch))) k =
           (if fst kv = k \<and> differs r kv then snd kv else getattr r k)"
  using assms
  by (auto simp: update_field_def differs_def getattr_mirror_title getattr_setattr
        getattr_update_jsondata)

lemma update_field_flag:
  "fst (snd (update_field kv (r, c, ch))) = (c \<or> differs r kv)"
  by (auto simp: update_field_def differs_def)

lemma update_field_same:
  "\<not> differs r kv \<Longrightarrow> snd (update_field kv (r, c, ch)) = (c, ch)"
  by (auto simp: update_field_def differs_def)

lemma fold_update_field_frame:
  assumes "k \<noteq> ''description''" and "k \<noteq> ''jsondata''"
      and "\<forall>kv \<in> set kw. fst kv = k \<longrightarrow> \<not> differs r kv"
  shows "getattr (fst (fold update_field kw (r, c, ch))) k = getattr r k"
  using assms(3)
proof (induction kw arbitrary: r c ch)
  case Nil
  then show ?case by simp
next
  case (Cons kv kw)
  obtain r1 c1 ch1 where s: "update_field kv (r, c, ch) = (r1, c1, ch1)"
    by (cases "update_field kv (r, c, ch)") auto
  have g: "getattr r1 k = getattr r k"
    using update_field_getattr[OF assms(1,2), of kv r c ch] Cons.prems s by auto
  have "\<forall>kv \<in> set kw. fst kv = k \<longrightarrow> \<not> differs r1 kv"
    using Cons.prems g by (auto simp: differs_def)
  from Cons.IH[OF this] show ?case by (simp add: s g)
qed

lemma agrees_cong:
  assumes "\<forall>kv \<in> set kw. getattr r' (fst kv) = getattr r (fst kv)"
  shows "agrees kw r' = agrees kw r"
  using assms by (auto simp: agrees_def differs_def list_all_iff)

lemma fold_update_field_agrees:
  assumes "agrees kw r" and "''description'' \<notin> fst ` set kw"
  shows "snd (fold update_field kw (r, c, ch)) = (c, ch)"
  using assms
proof (induction kw arbitrary: r)
  case Nil
  then show ?case by simp
next
  case (Cons kv kw)
  obtain r1 c1 ch1 where s: "update_field kv (r, c, ch) = (r1, c1, ch1)"
    by (cases "update_field kv (r, c, ch)") auto
  from Cons.prems(1) have nd: "\<not> differs r kv" and a: "agrees kw r"
    by (simp_all add: agrees_def)
  from update_field_same[OF nd, of c ch] s have c1: "c1 = c" "ch1 = ch" by simp_all
  have "agrees kw r1"
  proof -
    have "\<forall>x \<in> set kw. \<not> differs r1 x"
    proof
      fix x assume x: "x \<in> set kw"
      show "\<not> differs r1 x"
      proof (cases "fst x = ''jsondata''")
        case True then show ?thesis by (simp add: differs_def)
      next
        case False
        have "fst x \<noteq> ''description''" using x Cons.prems(2) by force
        from update_field_getattr[OF this False, of kv r c ch] nd s
        have "getattr r1 (fst x) = getattr r (fst x)" by simp
        moreover have "\<not> differs r x" using a x by (simp add: agrees_def list_all_iff)
        ultimately show ?thesis by (simp add: differs_def)
      qed
    qed
    then show ?thesis by (simp add: agrees_def list_all_iff)
  qed
  moreover have "''description'' \<notin> fst ` set kw" using Cons.prems(2) by auto
  ultimately show ?case using Cons.IH[of r1] by (simp add: s c1)
qed

lemma fold_update_field_flag:
  assumes "distinct (map fst kw)" and "''description'' \<notin> fst ` set kw"
  shows "fst (snd (fold update_field kw (r, c, ch))) = (c \<or> (\<exists>kv \<in> set kw. differs r kv))"
  using assms
proof (induction kw arbitrary: r c ch)
  case Nil
  then show ?case by simp
next
  case (Cons kv kw)
  obtain r1 c1 ch1 where s: "update_field kv (r, c, ch) = (r1, c1, ch1)"
    by (cases "update_field kv (r, c, ch)") auto
  have c1: "c1 = (c \<or> differs r kv)" using update_field_flag[of kv r c ch] s by simp
  have eq: "differs r1 x = differs r x" if x: "x \<in> set kw" for x
  proof (cases "fst x = ''jsondata''")
    case True then show ?thesis by (simp add: differs_def)
  next
    case False
    have d: "fst x \<noteq> ''description''" using x Cons.prems(2) by force
    have "fst kv \<noteq> fst x" using x Cons.prems(1) by force
    with update_field_getattr[OF d False, of kv r c ch] s
    have "getattr r1 (fst x) = getattr r (fst x)" by simp
    then show ?thesis by (simp add: differs_def)
  qed
  have "fst (snd (fold update_field kw (r1, c1, ch1))) = (c1 \<or> (\<exists>kv \<in> set kw. differs r1 kv))"
    using Cons.IH[of r1 c1 ch1] Cons.prems by auto
  then show ?case using eq c1 by (auto simp: s)
qed

lemma fold_update_field_result_agrees:
  assumes "distinct (map fst kw)" and "''description'' \<notin> fst ` set kw"
  shows "agrees kw (fst (fold update_field kw (r, c, ch)))"
  using assms
proof (induction kw arbitrary: r c ch)
  case Nil
  then show ?case by (simp add: agrees_def)
next
  case (Cons kv kw)
  obtain r1 c1 ch1 where s: "update_field kv (r, c, ch) = (r1, c1, ch1)"
    by (cases "update_field kv (r, c, ch)") auto
  let ?r' = "fst (fold update_field kw (r1, c1, ch1))"
  have ih: "agrees kw ?r'" using Cons.IH[of r1 c1 ch1] Cons.prems by auto
  have "\<not> differs ?r' kv"
  proof (cases "fst kv = ''pk'' \<or> fst kv = ''jsondata''")
    case True then show ?thesis by (auto simp: differs_def)
  next
    case False
    have d: "fst kv \<noteq> ''description''" using Cons.prems(2) by auto
    have j: "fst kv \<noteq> ''jsondata''" using False by simp
    have g1: "\<not> py_ne (snd kv) (getattr r1 (fst kv))"
      using update_field_getattr[OF d j, of kv r c ch] s False
      by (auto simp: differs_def py_ne_refl)
    have "fst kv \<notin> fst ` set kw" using Cons.prems(1) by simp
    then have "\<forall>x \<in> set kw. fst x = fst kv \<longrightarrow> \<not> differs r1 x"
      by (metis imageI)
    from fold_update_field_frame[OF d j this]
    have "getattr ?r' (fst kv) = getattr r1 (fst kv)" .
    with g1 show ?thesis by (simp add: differs_def)
  qed
  with ih show ?case by (simp add: agrees_def s)
qed

lemma keys_update: "fst ` set (AList.update k v al) = insert k (fst ` set al)"
  by (induction al) auto

lemma kw_ok_update:
  assumes "kw_ok kw" and "k \<in> set KW_KEYS" and "k \<noteq> ''jsondata''"
  shows "kw_ok (AList.update k v kw)"
  using assms by (auto simp: kw_ok_def keys_update distinct_update update_conv')

lemma kw_ok_update_jsondata:
  assumes "kw_ok kw"
  shows "kw_ok (AList.update ''jsondata'' (PyDict (AList.update k v (kw_jsondata kw))) kw)"
proof -
  from assms obtain d where d: "map_of kw ''jsondata'' = Some (PyDict d)" "distinct (map fst d)"
    by (auto simp: kw_ok_def)
  then have "kw_jsondata kw = d" by (simp add: kw_jsondata_def)
  moreover have "''jsondata'' \<in> fst ` set kw" using d(1) by (metis domI dom_map_of_conv_image_fst)
  ultimately show ?thesis
    using assms d by (auto simp: kw_ok_def keys_update distinct_update update_conv')
qed

lemma kw_ok_init: "kw_ok (kw_init r pk)"
  by (simp add: kw_ok_def kw_init_def KW_KEYS_def)

lemma kw_ok_field_step:
  assumes "st \<in> set FIELD_MAP" and "kw_ok kw" and "field_step e r st kw = Inr kw'"
  shows "kw_ok kw'"
proof -
  from assms(1) FIELD_MAP_targets
  have t: "snd st = [] \<or> snd st \<in> set KW_KEYS \<and> snd st \<noteq> ''jsondata''"
    by (auto simp: list_all_iff)
  show ?thesis
    using assms(2,3) t
    by (auto simp: field_step_def Let_def kw_ok_update kw_ok_update_jsondata
        split: option.splits if_splits sum.splits)
qed

lemma kw_ok_set_if:
  "kw_ok kw \<Longrightarrow> k \<in> set KW_KEYS \<Longrightarrow> k \<noteq> ''jsondata'' \<Longrightarrow> kw_ok (set_if k v kw)"
  by (simp add: set_if_def kw_ok_update split: option.splits)

lemma kw_ok_steps:
  assumes "kw_ok kw"
  shows "kw_ok (numberofpages_step r kw)" "kw_ok (year_step kw)" "kw_ok (publisher_step kw)"
    "kw_ok (pages_step e kw)"
  using assms
  by (auto simp: numberofpages_step_def year_step_def publisher_step_def pages_step_def Let_def
      kw_ok_update kw_ok_set_if KW_KEYS_def split: option.splits prod.splits)

lemma parse_record_ok:
  assumes "parse_record e r pk = Inr kw"
  shows "kw_ok kw"
proof -
  from assms obtain kw0 where f: "fold_err (field_step e r) FIELD_MAP (kw_init r pk) = Inr kw0"
    and kw: "kw = pages_step e (publisher_step (year_step (numberofpages_step r kw0)))"
    by (auto simp: parse_record_def split: sum.splits)
  have "kw_ok kw0"
    by (rule fold_err_invariant[where P = kw_ok, OF f kw_ok_init]) (rule kw_ok_field_step)
  then show ?thesis unfolding kw by (intro kw_ok_steps)
qed

lemma kw_ok_facts:
  assumes "kw_ok kw"
  shows "distinct (map fst kw)" "''description'' \<notin> fst ` set kw" "''name'' \<notin> fst ` set kw"
    "''doctypes_str'' \<notin> fst ` set kw" "''providers_str'' \<notin> fst ` set kw"
    "map_of kw ''jsondata'' = Some (PyDict (kw_jsondata kw))" "distinct (map fst (kw_jsondata kw))"
  using assms by (auto simp: kw_ok_def KW_KEYS_def kw_jsondata_def)

text \<open>The side-bag of the entity after the loop.\<close>

lemma fold_update_map_of:
  "distinct (map fst d) \<Longrightarrow>
     map_of (fold (\<lambda>kv. AList.update (fst kv) (snd kv)) d old) = map_of old ++ map_of d"
proof (induction d arbitrary: old)
  case Nil
  then show ?case by simp
next
  case (Cons kv d)
  then have n: "fst kv \<notin> dom (map_of d)" by (simp add: dom_map_of_conv_image_fst)
  have "map_of (fold (\<lambda>kv. AList.update (fst kv) (snd kv)) (kv # d) old)
          = map_of (AList.update (fst kv) (snd kv) old) ++ map_of d"
    using Cons by simp
  also have "\<dots> = (map_of old)(fst kv \<mapsto> snd kv) ++ map_of d"
    by (simp add: update_conv')
  also have "\<dots> = map_of old ++ map_of (kv # d)"
    using n by (cases kv) (auto simp: fun_eq_iff map_add_def split: option.splits)
  finally show ?case .
qed

lemma ref_jsondata_step_other:
  "fst kv \<noteq> ''jsondata'' \<Longrightarrow> ref_jsondata (fst (update_field kv (r, c, ch))) = ref_jsondata r"
  by (auto simp: update_field_def ref_jsondata_def getattr_mirror_title getattr_setattr)

lemma ref_jsondata_fold_other:
  "''jsondata'' \<notin> fst ` set kw \<Longrightarrow>
     ref_jsondata (fst (fold update_field kw (r, c, ch))) = ref_jsondata r"
proof (induction kw arbitrary: r c ch)
  case Nil
  then show ?case by simp
next
  case (Cons kv kw)
  obtain r1 c1 ch1 where s: "update_field kv (r, c, ch) = (r1, c1, ch1)"
    by (cases "update_field kv (r, c, ch)") auto
  have "fst kv \<noteq> ''jsondata''" using Cons.prems by auto
  from ref_jsondata_step_other[OF this, of r c ch] s
  have "ref_jsondata r1 = ref_jsondata r" by simp
  moreover have "''jsondata'' \<notin> fst ` set kw" using Cons.prems by auto
  ultimately show ?case using Cons.IH[of r1 c1 ch1] s by simp
qed

lemma ref_jsondata_step_self:
  assumes "distinct (map fst d)"
  shows "map_of (ref_jsondata (fst (update_field (''jsondata'', PyDict d) (r, c, ch))))
           = map_of (ref_jsondata r) ++ map_of d"
proof (cases "py_ne (PyDict d) (getattr r ''jsondata'')")
  case True
  then show ?thesis
    using fold_update_map_of[OF assms]
    by (simp add: update_field_def ref_jsondata_def getattr_mirror_title update_jsondata_def
        getattr_setattr)
next
  case False
  then obtain b where b: "getattr r ''jsondata'' = PyDict b" "map_of d = map_of b"
    by (cases "getattr r ''jsondata''") (auto simp: dict_eq_iff)
  have "map_of b ++ map_of b = map_of b"
    by (auto simp: fun_eq_iff map_add_def split: option.splits)
  with b show ?thesis using False
    by (simp add: update_field_def ref_jsondata_def getattr_mirror_title)
qed

lemma fold_update_field_jsondata:
  assumes "distinct (map fst kw)" and "map_of kw ''jsondata'' = Some (PyDict d)"
      and "distinct (map fst d)"
  shows "map_of (ref_jsondata (fst (fold update_field kw (r, c, ch))))
           = map_of (ref_jsondata r) ++ map_of d"
  using assms(1,2)
proof (induction kw arbitrary: r c ch)
  case Nil
  then show ?case by simp
next
  case (Cons kv kw)
  obtain r1 c1 ch1 where s: "update_field kv (r, c, ch) = (r1, c1, ch1)"
    by (cases "update_field kv (r, c, ch)") auto
  show ?case
  proof (cases "fst kv = ''jsondata''")
    case True
    with Cons.prems(2) have kv: "kv = (''jsondata'', PyDict d)" by (cases kv) simp
    have "''jsondata'' \<notin> fst ` set kw" using Cons.prems(1) True by auto
    from ref_jsondata_fold_other[OF this, of r1 c1 ch1]
    show ?thesis using ref_jsondata_step_self[OF assms(3), of r c ch] s kv by simp
  next
    case False
    have "ref_jsondata r1 = ref_jsondata r"
      using ref_jsondata_step_other[OF False, of r c ch] s by simp
    moreover have "map_of kw ''jsondata'' = Some (PyDict d)"
      using Cons.prems(2) False by (cases kv) (auto split: if_splits)
    ultimately show ?thesis using Cons.IH[of r1 c1 ch1] Cons.prems(1) s by simp
  qed
qed

text \<open>The change log after the loop.\<close>

lemma logged_log_change:
  "logged (log_change rid k ov ch) rid' k' =
     (if rid' = rid \<and> k' = k then Some ov else logged ch rid' k')"
  by (auto simp: logged_def log_change_def update_conv' split: option.splits)

lemma update_field_logged:
  assumes "fst kv = ''id'' \<longrightarrow> \<not> differs r kv"
  shows "logged (snd (snd (update_field kv (r, c, ch)))) rid k =
           (if rid = getattr r ''id'' \<and> k = fst kv \<and> differs r kv
            then Some (fmt (getattr r k), fmt (snd kv)) else logged ch rid k)"
proof (cases "differs r kv")
  case True
  then have k: "fst kv \<noteq> ''pk''" "fst kv \<noteq> ''jsondata''" "py_ne (snd kv) (getattr r (fst kv))"
    "fst kv \<noteq> ''id''"
    using assms by (auto simp: differs_def)
  have "snd (snd (update_field kv (r, c, ch)))
          = log_change (getattr r ''id'') (fst kv) (fmt (getattr r (fst kv)), fmt (snd kv)) ch"
    using k by (simp add: update_field_def getattr_setattr)
  then show ?thesis using True by (simp add: logged_log_change)
next
  case False
  then have "snd (snd (update_field kv (r, c, ch))) = ch"
    using update_field_same[OF False, of c ch] by simp
  then show ?thesis using False by simp
qed

lemma fold_update_field_logged:
  assumes "distinct (map fst kw)" and "''description'' \<notin> fst ` set kw"
      and "\<forall>kv \<in> set kw. fst kv = ''id'' \<longrightarrow> \<not> differs r kv"
  shows "logged (snd (snd (fold update_field kw (r, c, ch)))) rid k =
           (if rid = getattr r ''id'' \<and> (\<exists>kv \<in> set kw. fst kv = k \<and> differs r kv)
            then Some (fmt (getattr r k), fmt (the (map_of kw k))) else logged ch rid k)"
  using assms
proof (induction kw arbitrary: r c ch)
  case Nil
  then show ?case by simp
next
  case (Cons kv kw)
  obtain r1 c1 ch1 where s: "update_field kv (r, c, ch) = (r1, c1, ch1)"
    by (cases "update_field kv (r, c, ch)") auto
  have idst: "fst kv = ''id'' \<longrightarrow> \<not> differs r kv" using Cons.prems(3) by simp
  have l1: "logged ch1 rid k =
           (if rid = getattr r ''id'' \<and> k = fst kv \<and> differs r kv
            then Some (fmt (getattr r k), fmt (snd kv)) else logged ch rid k)"
    using update_field_logged[OF idst, of c ch rid k] s by simp
  have id1: "getattr r1 ''id'' = getattr r ''id''"
    using update_field_getattr[of "''id''" kv r c ch] s idst by auto
  have eq: "differs r1 x = differs r x" if x: "x \<in> set kw" for x
  proof (cases "fst x = ''jsondata''")
    case True then show ?thesis by (simp add: differs_def)
  next
    case False
    have d: "fst x \<noteq> ''description''" using x Cons.prems(2) by force
    have "fst kv \<noteq> fst x" using x Cons.prems(1) by force
    with update_field_getattr[OF d False, of kv r c ch] s
    have "getattr r1 (fst x) = getattr r (fst x)" by simp
    then show ?thesis by (simp add: differs_def)
  qed
  have g: "getattr r1 (fst x) = getattr r (fst x)" if x: "x \<in> set kw" "differs r x" for x
  proof -
    have d: "fst x \<noteq> ''description''" using x Cons.prems(2) by force
    have j: "fst x \<noteq> ''jsondata''" using x(2) by (simp add: differs_def)
    have "fst kv \<noteq> fst x" using x Cons.prems(1) by force
    with update_field_getattr[OF d j, of kv r c ch] s show ?thesis by simp
  qed
  have ih: "logged (snd (snd (fold update_field kw (r1, c1, ch1)))) rid k =
           (if rid = getattr r1 ''id'' \<and> (\<exists>kv \<in> set kw. fst kv = k \<and> differs r1 kv)
            then Some (fmt (getattr r1 k), fmt (the (map_of kw k))) else logged ch1 rid k)"
    using Cons.IH[of r1 c1 ch1] Cons.prems eq by auto
  have nk: "fst kv \<notin> fst ` set kw" using Cons.prems(1) by simp
  have mo: "map_of (kv # kw) k = (if k = fst kv then Some (snd kv) else map_of kw k)"
    by (cases kv) auto
  have fo: "fold update_field (kv # kw) (r, c, ch) = fold update_field kw (r1, c1, ch1)"
    by (simp add: s)
  show ?case
  proof (cases "\<exists>x \<in> set kw. fst x = k \<and> differs r x")
    case True
    then obtain x where x: "x \<in> set kw" "fst x = k" "differs r x" by blast
    then have ne: "k \<noteq> fst kv" using nk by (metis imageI)
    have g1: "getattr r1 k = getattr r k" using g[OF x(1,3)] x(2) by simp
    have t1: "\<exists>x \<in> set kw. fst x = k \<and> differs r1 x" using x eq by blast
    have t2: "\<exists>x \<in> set (kv # kw). fst x = k \<and> differs r x" using x by auto
    have l1': "logged ch1 rid k = logged ch rid k" unfolding l1 using ne by simp
    show ?thesis
    proof (cases "rid = getattr r ''id''")
      case rid: True
      have c1: "rid = getattr r1 ''id'' \<and> (\<exists>kv \<in> set kw. fst kv = k \<and> differs r1 kv)"
        using rid id1 t1 by simp
      have c2: "rid = getattr r ''id'' \<and> (\<exists>x \<in> set (kv # kw). fst x = k \<and> differs r x)"
        using rid t2 by simp
      have "logged (snd (snd (fold update_field kw (r1, c1, ch1)))) rid k
              = Some (fmt (getattr r1 k), fmt (the (map_of kw k)))"
        unfolding ih by (rule if_P[OF c1])
      also have "\<dots> = Some (fmt (getattr r k), fmt (the (map_of (kv # kw) k)))"
        using g1 mo ne by simp
      finally show ?thesis unfolding fo by (simp only: if_P[OF c2])
    next
      case rid: False
      have c1: "\<not> (rid = getattr r1 ''id'' \<and> (\<exists>kv \<in> set kw. fst kv = k \<and> differs r1 kv))"
        using rid id1 by simp
      have c2: "\<not> (rid = getattr r ''id'' \<and> (\<exists>x \<in> set (kv # kw). fst x = k \<and> differs r x))"
        using rid by simp
      have "logged (snd (snd (fold update_field kw (r1, c1, ch1)))) rid k = logged ch1 rid k"
        unfolding ih by (rule if_not_P[OF c1])
      then show ?thesis unfolding fo by (simp only: if_not_P[OF c2] l1')
    qed
  next
    case False
    then have f1: "\<not> (\<exists>x \<in> set kw. fst x = k \<and> differs r1 x)" using eq by auto
    have t2: "(\<exists>x \<in> set (kv # kw). fst x = k \<and> differs r x) \<longleftrightarrow> (k = fst kv \<and> differs r kv)"
      using False by auto
    have c1: "\<not> (rid = getattr r1 ''id'' \<and> (\<exists>kv \<in> set kw. fst kv = k \<and> differs r1 kv))"
      using f1 by blast
    have l: "logged (snd (snd (fold update_field kw (r1, c1, ch1)))) rid k = logged ch1 rid k"
      unfolding ih by (rule if_not_P[OF c1])
    show ?thesis
    proof (cases "rid = getattr r ''id'' \<and> k = fst kv \<and> differs r kv")
      case True
      then have c2: "rid = getattr r ''id'' \<and> (\<exists>x \<in> set (kv # kw). fst x = k \<and> differs r x)"
        by auto
      have "logged ch1 rid k = Some (fmt (getattr r k), fmt (snd kv))"
        unfolding l1 by (rule if_P[OF True])
      also have "\<dots> = Some (fmt (getattr r k), fmt (the (map_of (kv # kw) k)))"
        using True mo by simp
      finally show ?thesis unfolding fo l by (simp only: if_P[OF c2])
    next
      case False
      then have c2: "\<not> (rid = getattr r ''id'' \<and> (\<exists>x \<in> set (kv # kw). fst x = k \<and> differs r x))"
        using t2 by blast
      have "logged ch1 rid k = logged ch rid k"
        unfolding l1 by (rule if_not_P[OF False])
      then show ?thesis unfolding fo l by (simp only: if_not_P[OF c2])
    qed
  qed
qed

lemma ref_jsondata_attrs: "attrs r' = attrs r \<Longrightarrow> ref_jsondata r' = ref_jsondata r"
  by (simp add: ref_jsondata_def getattr_def)

lemma getattr_attrs: "attrs r' = attrs r \<Longrightarrow> getattr r' k = getattr r k"
  by (simp add: getattr_def)

lemma getattr_summary_strs:
  "k \<noteq> ''doctypes_str'' \<Longrightarrow> k \<noteq> ''providers_str'' \<Longrightarrow> getattr (summary_strs r) k = getattr r k"
  by (simp add: summary_strs_def getattr_setattr)

lemma ref_jsondata_summary_strs: "ref_jsondata (summary_strs r) = ref_jsondata r"
  by (simp add: ref_jsondata_def getattr_summary_strs)

lemma update_path:
  assumes "merge_ref e (Some ref0) ch r pk = Inr (ref', changed, ch')"
  obtains kw ref1 c1 ref2 where "parse_record e r pk = Inr kw" and "kw_ok kw"
    and "fold update_field kw (ref0, False, ch) = (ref1, c1, ch')"
    and "reconcile e (kw_jsondata kw) (ref1, c1) = Inr (ref2, changed)"
    and "ref' = (if changed then summary_strs ref2 else ref2)"
proof -
  from assms obtain kw ref1 c1 ref2 where p: "parse_record e r pk = Inr kw"
    and u: "(case Some ref0 of Some ref0 \<Rightarrow> fold update_field kw (ref0, False, ch)
            | None \<Rightarrow> (create_ref kw, True, ch)) = (ref1, c1, ch')"
    and rc: "reconcile e (kw_jsondata kw) (ref1, c1) = Inr (ref2, changed)"
    and r': "ref' = (let ref3 = (if Some ref0 = None
                     then setattr ref2 ''jsondata'' (PyDict (lgcode_step (kw_jsondata kw)))
                     else ref2)
                 in if changed then summary_strs ref3 else ref3)"
    by (rule merge_ref_cases)
  show ?thesis
    using that[OF p parse_record_ok[OF p] _ rc] u r' by simp
qed

text \<open>
  Claim C10, amended. On the update path the entries of the record's side-bag are merged
  into the side-bag of the reference. When the parsed fields agree with the reference
  but for the side-bag, the loop over the fields sets no flag and the change log stays
  as it is; the \<open>changed\<close> flag of the record is then exactly what relationship
  reconciliation reports, and when it stays false the two summary texts keep their
  values. When a parsed field other than the side-bag differs, the flag is set, and
  (the id of the reference being the id of the record) the change log holds the old
  and the new text of every such field under the id of the reference.
\<close>

theorem side_bag_difference_alone:
  assumes "merge_ref e (Some ref0) ch r pk = Inr (ref', changed, ch')"
  shows "\<exists>kw. parse_record e r pk = Inr kw
     \<and> map_of (ref_jsondata ref') = map_of (ref_jsondata ref0) ++ map_of (kw_jsondata kw)
     \<and> (agrees kw ref0 \<longrightarrow>
           ch' = ch
           \<and> (changed \<longleftrightarrow> relationships_changed e (kw_jsondata kw) ref0 ref')
           \<and> (\<not> changed \<longrightarrow>
                 getattr ref' ''doctypes_str'' = getattr ref0 ''doctypes_str''
                 \<and> getattr ref' ''providers_str'' = getattr ref0 ''providers_str''))
     \<and> (\<not> agrees kw ref0 \<longrightarrow> changed)
     \<and> (id_agrees kw ref0 \<longrightarrow>
           (\<forall>kv \<in> set kw. differs ref0 kv \<longrightarrow>
              logged ch' (getattr ref0 ''id'') (fst kv)
                = Some (fmt (getattr ref0 (fst kv)), fmt (snd kv))))"
proof -
  from assms obtain kw ref1 c1 ref2 where p: "parse_record e r pk = Inr kw" and ok: "kw_ok kw"
    and u: "fold update_field kw (ref0, False, ch) = (ref1, c1, ch')"
    and rc: "reconcile e (kw_jsondata kw) (ref1, c1) = Inr (ref2, changed)"
    and r': "ref' = (if changed then summary_strs ref2 else ref2)"
    by (rule update_path)
  note k = kw_ok_facts[OF ok]
  note rp = reconcile_props[OF rc]
  have col1: "macroareas ref1 = macroareas ref0" "providers ref1 = providers ref0"
    "doctypes ref1 = doctypes ref0"
    using fold_update_field_collections[of kw "(ref0, False, ch)"] u by simp_all
  have col': "macroareas ref' = macroareas ref2" "providers ref' = providers ref2"
    "doctypes ref' = doctypes ref2"
    using r' by (simp_all add: summary_strs_collections)
  have j: "map_of (ref_jsondata ref') = map_of (ref_jsondata ref0) ++ map_of (kw_jsondata kw)"
  proof -
    have "ref_jsondata ref' = ref_jsondata ref1"
      using r' ref_jsondata_attrs[OF rp(4)] by (simp add: ref_jsondata_summary_strs)
    then show ?thesis
      using fold_update_field_jsondata[OF k(1) k(6) k(7), of ref0 False ch] u by simp
  qed
  have flag: "c1 \<longleftrightarrow> (\<exists>kv \<in> set kw. differs ref0 kv)"
    using fold_update_field_flag[OF k(1,2), of ref0 False ch] u by simp
  have rel: "changed \<longleftrightarrow> c1 \<or> relationships_changed e (kw_jsondata kw) ref0 ref'"
    using rp(5) unfolding relationships_changed_def col1 col' by simp
  have a: "agrees kw ref0 \<longrightarrow>
           ch' = ch
           \<and> (changed \<longleftrightarrow> relationships_changed e (kw_jsondata kw) ref0 ref')
           \<and> (\<not> changed \<longrightarrow>
                 getattr ref' ''doctypes_str'' = getattr ref0 ''doctypes_str''
                 \<and> getattr ref' ''providers_str'' = getattr ref0 ''providers_str'')"
  proof
    assume ag: "agrees kw ref0"
    from fold_update_field_agrees[OF ag k(2), of False ch] u
    have c1: "c1 = False" and ch: "ch' = ch" by simp_all
    have fr: "getattr ref1 x = getattr ref0 x"
      if "x \<notin> fst ` set kw" "x \<noteq> ''description''" "x \<noteq> ''jsondata''" for x
    proof -
      have "\<forall>kv \<in> set kw. fst kv = x \<longrightarrow> \<not> differs ref0 kv" using that(1) by force
      from fold_update_field_frame[OF that(2,3) this, of False ch] u show ?thesis by simp
    qed
    have "\<not> changed \<longrightarrow>
            getattr ref' ''doctypes_str'' = getattr ref0 ''doctypes_str''
            \<and> getattr ref' ''providers_str'' = getattr ref0 ''providers_str''"
      using r' getattr_attrs[OF rp(4)] fr[OF k(4)] fr[OF k(5)] by simp
    with ch rel c1 show "ch' = ch
           \<and> (changed \<longleftrightarrow> relationships_changed e (kw_jsondata kw) ref0 ref')
           \<and> (\<not> changed \<longrightarrow>
                 getattr ref' ''doctypes_str'' = getattr ref0 ''doctypes_str''
                 \<and> getattr ref' ''providers_str'' = getattr ref0 ''providers_str'')"
      by simp
  qed
  have b: "\<not> agrees kw ref0 \<longrightarrow> changed"
    using flag rel by (auto simp: agrees_def list_all_iff)
  have c: "id_agrees kw ref0 \<longrightarrow>
           (\<forall>kv \<in> set kw. differs ref0 kv \<longrightarrow>
              logged ch' (getattr ref0 ''id'') (fst kv)
                = Some (fmt (getattr ref0 (fst kv)), fmt (snd kv)))"
  proof (intro impI ballI)
    fix kv assume ia: "id_agrees kw ref0" and kv: "kv \<in> set kw" and d: "differs ref0 kv"
    have st: "\<forall>kv \<in> set kw. fst kv = ''id'' \<longrightarrow> \<not> differs ref0 kv"
      using ia by (auto simp: id_agrees_def list_all_iff)
    have m: "map_of kw (fst kv) = Some (snd kv)" using k(1) kv by simp
    have ex: "getattr ref0 ''id'' = getattr ref0 ''id'' \<and> (\<exists>x \<in> set kw. fst x = fst kv \<and> differs ref0 x)"
      using kv d by blast
    have "logged (snd (snd (fold update_field kw (ref0, False, ch)))) (getattr ref0 ''id'') (fst kv)
            = Some (fmt (getattr ref0 (fst kv)), fmt (the (map_of kw (fst kv))))"
      unfolding fold_update_field_logged[OF k(1,2) st] by (rule if_P[OF ex])
    then show "logged ch' (getattr ref0 ''id'') (fst kv)
                = Some (fmt (getattr ref0 (fst kv)), fmt (snd kv))"
      using u m by simp
  qed
  from p j a b c show ?thesis by blast
qed

lemma keywords_rec_parsed:
  "parse_record example_env keywords_rec 7 =
     Inr [(''pk'', PyInt 7), (''bibtex_type'', PyStr ''book''), (''id'', PyStr ''7''),
          (''jsondata'', PyDict [(''bibtexkey'', ''doe1987''), (''glottolog_ref_id'', ''7''),
                                 (''keywords'', ''tone''), (''numberofpages'', ''100'')]),
          (''author'', PyStr ''Doe''), (''pages'', PyStr ''12-34''), (''title'', PyStr ''T''),
          (''year'', PyStr ''1987''), (''pages_int'', PyInt 23), (''year_int'', PyInt 1987),
          (''startpage_int'', PyInt 12), (''endpage_int'', PyInt 34)]"
  by code_simp

lemma retitled_rec_parsed:
  "parse_record example_env retitled_rec 7 =
     Inr [(''pk'', PyInt 7), (''bibtex_type'', PyStr ''book''), (''id'', PyStr ''7''),
          (''jsondata'', PyDict [(''bibtexkey'', ''doe1987''), (''glottolog_ref_id'', ''7''),
                                 (''numberofpages'', ''100'')]),
          (''author'', PyStr ''Doe''), (''pages'', PyStr ''12-34''), (''title'', PyStr ''U''),
          (''year'', PyStr ''1987''), (''pages_int'', PyInt 23), (''year_int'', PyInt 1987),
          (''startpage_int'', PyInt 12), (''endpage_int'', PyInt 34)]"
  by code_simp

lemmas agrees_eval = agrees_def id_agrees_def differs_def getattr_def created_ref_def dict_eq_def

lemma keywords_rec_merged:
  "\<exists>ref'. merge_ref example_env (Some created_ref) [] keywords_rec 7 = Inr (ref', False, [])
      \<and> map_of (ref_jsondata ref') ''keywords'' = Some ''tone''"
  by (simp add: merge_ref_def keywords_rec_parsed reconcile_eval update_eval example_env_sel
      created_ref_def)

lemma retitled_rec_merged:
  "\<exists>ref'. merge_ref example_env (Some created_ref) [] retitled_rec 7
             = Inr (ref', True, [(PyStr ''7'', [(''title'', (''T'', ''U''))])])"
  by (simp add: merge_ref_def retitled_rec_parsed reconcile_eval update_eval example_env_sel
      created_ref_def)

lemma src_rec_merged_created:
  "\<exists>ref'. merge_ref example_env (Some created_ref) [] src_rec 7 = Inr (ref', True, [])
      \<and> getattr ref' ''providers_str'' = PyStr ''sil, wals''"
  by (simp add: merge_ref_def src_rec_parsed reconcile_eval update_eval example_env_sel
      created_ref_def)

theorem side_bag_difference_alone_witness:
  "\<exists>kw ref' kw2 ref2 ch2.
      parse_record example_env keywords_rec 7 = Inr kw
      \<and> agrees kw created_ref
      \<and> merge_ref example_env (Some created_ref) [] keywords_rec 7 = Inr (ref', False, [])
      \<and> map_of (ref_jsondata ref') = map_of (ref_jsondata created_ref) ++ map_of (kw_jsondata kw)
      \<and> map_of (ref_jsondata ref') ''keywords'' = Some ''tone''
      \<and> getattr ref' ''doctypes_str'' = getattr created_ref ''doctypes_str''
      \<and> getattr ref' ''providers_str'' = getattr created_ref ''providers_str''
      \<and> parse_record example_env retitled_rec 7 = Inr kw2
      \<and> \<not> agrees kw2 created_ref \<and> id_agrees kw2 created_ref
      \<and> differs created_ref (''title'', PyStr ''U'')
      \<and> merge_ref example_env (Some created_ref) [] retitled_rec 7 = Inr (ref2, True, ch2)
      \<and> logged ch2 (PyStr ''7'') ''title'' = Some (''T'', ''U'')"
proof -
  from keywords_rec_merged obtain ref' where
    m: "merge_ref example_env (Some created_ref) [] keywords_rec 7 = Inr (ref', False, [])"
    and kwd: "map_of (ref_jsondata ref') ''keywords'' = Some ''tone''" by blast
  from side_bag_difference_alone[OF m] obtain kw where
    p: "parse_record example_env keywords_rec 7 = Inr kw"
    and j: "map_of (ref_jsondata ref') = map_of (ref_jsondata created_ref) ++ map_of (kw_jsondata kw)"
    and a: "agrees kw created_ref \<longrightarrow> [] = ([] :: (val \<times> (string \<times> string) dict) list)
           \<and> (False \<longleftrightarrow> relationships_changed example_env (kw_jsondata kw) created_ref ref')
           \<and> (\<not> False \<longrightarrow>
                 getattr ref' ''doctypes_str'' = getattr created_ref ''doctypes_str''
                 \<and> getattr ref' ''providers_str'' = getattr created_ref ''providers_str'')"
    by blast
  have ag: "agrees kw created_ref"
    using p by (auto simp: keywords_rec_parsed agrees_eval)
  from retitled_rec_merged obtain ref2 where
    m2: "merge_ref example_env (Some created_ref) [] retitled_rec 7
           = Inr (ref2, True, [(PyStr ''7'', [(''title'', (''T'', ''U''))])])" by blast
  from side_bag_difference_alone[OF m2] obtain kw2 where
    p2: "parse_record example_env retitled_rec 7 = Inr kw2"
    and l2: "id_agrees kw2 created_ref \<longrightarrow>
           (\<forall>kv \<in> set kw2. differs created_ref kv \<longrightarrow>
              logged [(PyStr ''7'', [(''title'', (''T'', ''U''))])] (getattr created_ref ''id'') (fst kv)
                = Some (fmt (getattr created_ref (fst kv)), fmt (snd kv)))"
    by blast
  have kw2: "(''title'', PyStr ''U'') \<in> set kw2" "\<not> agrees kw2 created_ref" "id_agrees kw2 created_ref"
    using p2 by (auto simp: retitled_rec_parsed agrees_eval)
  have d: "differs created_ref (''title'', PyStr ''U'')" by (simp add: agrees_eval)
  have g: "getattr created_ref ''id'' = PyStr ''7''" "getattr created_ref ''title'' = PyStr ''T''"
    by (simp_all add: getattr_def created_ref_def)
  have lg: "logged [(PyStr ''7'', [(''title'', (''T'', ''U''))])] (PyStr ''7'') ''title'' = Some (''T'', ''U'')"
    using l2 kw2(1,3) d g by fastforce
  from p ag m j kwd a p2 kw2 d m2 lg show ?thesis by blast
qed

text \<open>
  Claim C10, as stated, fails: the record differs from the reference in the side-bag
  entry \<open>src\<close> alone, which names two providers; they are appended, the flag is set, the
  counter is incremented and the summary text of the providers is computed anew.
\<close>

theorem side_bag_difference_sets_changed:
  "\<exists>kw ref' st.
      parse_record example_env src_rec 7 = Inr kw
      \<and> agrees kw created_ref
      \<and> merge_ref example_env (Some created_ref) [] src_rec 7 = Inr (ref', True, [])
      \<and> getattr created_ref ''providers_str'' = PyStr []
      \<and> getattr ref' ''providers_str'' = PyStr ''sil, wals''
      \<and> main example_env [src_rec] [(7, created_ref)] = Inr st
      \<and> count st = 1 \<and> changes st = []"
proof -
  from src_rec_merged_created obtain ref' where
    m: "merge_ref example_env (Some created_ref) [] src_rec 7 = Inr (ref', True, [])"
    and s: "getattr ref' ''providers_str'' = PyStr ''sil, wals''" by blast
  have ag: "agrees (projr (parse_record example_env src_rec 7)) created_ref"
    by (simp add: src_rec_parsed agrees_eval)
  have g: "getattr created_ref ''providers_str'' = PyStr []"
    by (simp add: getattr_def created_ref_def)
  have k: "length (rec_keys src_rec) = 7" "populated src_rec ''glottolog_ref_id''"
    "py_int (get_default (rec_fields src_rec) ''glottolog_ref_id'' []) = Some 7"
    by (simp_all add: rec_keys_def src_rec_def pages_rec_def populated_def rec_get_def
        get_default_def py_int_def strip_def is_space_def is_digit_def digits_val_def digit_val_def)
  have "main example_env [src_rec] [(7, created_ref)]
          = Inr \<lparr>refs = [(7, ref')], known_ids = [7], count = 1, skipped = 0, changes = []\<rparr>"
    by (simp add: main_def process_record_def k m example_env_sel)
  with m s ag g show ?thesis by (auto simp: src_rec_parsed)
qed

section \<open>Records with empty fields\<close>

lemma six_key_rec_parsed:
  "parse_record example_env six_key_rec 7 =
     Inr [(''pk'', PyInt 7), (''bibtex_type'', PyStr ''book''), (''id'', PyStr ''7''),
          (''jsondata'', PyDict [(''bibtexkey'', ''doe1987''), (''glottolog_ref_id'', ''7'')]),
          (''author'', PyStr ''Doe''), (''pages'', PyStr ''12-34''), (''title'', PyStr ''T''),
          (''year'', PyStr ''1987''), (''year_int'', PyInt 1987), (''startpage_int'', PyInt 12),
          (''endpage_int'', PyInt 34), (''pages_int'', PyInt 23)]"
  by code_simp

lemma six_key_rec_created:
  "\<exists>ref'. merge_ref example_env None [] six_key_rec 7 = Inr (ref', True, [])"
  by (simp add: merge_ref_def six_key_rec_parsed reconcile_eval update_eval example_env_sel)

text \<open>
  Claim C6, as stated, fails: the script counts the keys of a record, not the populated
  ones. The record below has six keys, and five of them are populated; it is not
  skipped, and a reference is created from it.
\<close>

theorem six_keys_five_populated_not_skipped:
  "length (rec_keys six_key_rec) = 6
   \<and> populated_keys six_key_rec = [''glottolog_ref_id'', ''author'', ''year'', ''title'', ''pages'']
   \<and> length (populated_keys six_key_rec) < 6
   \<and> (\<exists>st. process_record example_env six_key_rec
               \<lparr>refs = [], known_ids = [], count = 0, skipped = 0, changes = []\<rparr> = Inr st
          \<and> skipped st = 0 \<and> count st = 1 \<and> map_of (refs st) 7 \<noteq> None)"
proof -
  have k: "rec_keys six_key_rec = [''glottolog_ref_id'', ''author'', ''year'', ''title'', ''pages'', ''note'']"
    by (simp add: rec_keys_def six_key_rec_def sparse_rec_def)
  have p: "populated_keys six_key_rec = [''glottolog_ref_id'', ''author'', ''year'', ''title'', ''pages'']"
    unfolding populated_keys_def k
    by (simp add: populated_def rec_get_def six_key_rec_def sparse_rec_def)
  have g: "populated six_key_rec ''glottolog_ref_id''"
    "py_int (get_default (rec_fields six_key_rec) ''glottolog_ref_id'' []) = Some 7"
    by (simp_all add: six_key_rec_def sparse_rec_def populated_def rec_get_def
        get_default_def py_int_def strip_def is_space_def is_digit_def digits_val_def digit_val_def)
  from six_key_rec_created obtain ref' where
    m: "merge_ref example_env None [] six_key_rec 7 = Inr (ref', True, [])" by blast
  have "process_record example_env six_key_rec
          \<lparr>refs = [], known_ids = [], count = 0, skipped = 0, changes = []\<rparr>
        = Inr \<lparr>refs = [(7, ref')], known_ids = [], count = 1, skipped = 0, changes = []\<rparr>"
    by (simp add: process_record_def k g m example_env_sel)
  with k p show ?thesis by simp
qed

section \<open>The side-bag of a reference\<close>

lemma ref_jsondata_setattr:
  "ref_jsondata (setattr r ''jsondata'' (PyDict d)) = d"
  by (simp add: ref_jsondata_def getattr_setattr)

lemma old_ref_None_jsondata: "ref_jsondata (old_ref None) = []"
  by (simp add: old_ref_def ref_jsondata_def getattr_def)

lemma merge_ref_side_bag:
  assumes "merge_ref e existing ch r pk = Inr (ref', changed, ch')"
  shows "\<exists>kw. parse_record e r pk = Inr kw
    \<and> (existing = None \<longrightarrow> ref_jsondata ref' = lgcode_step (kw_jsondata kw))
    \<and> (existing \<noteq> None \<longrightarrow>
           map_of (ref_jsondata ref')
             = map_of (ref_jsondata (old_ref existing)) ++ map_of (kw_jsondata kw))"
proof -
  from assms obtain kw ref1 c1 ref2 where p: "parse_record e r pk = Inr kw"
    and u: "(case existing of Some ref0 \<Rightarrow> fold update_field kw (ref0, False, ch)
            | None \<Rightarrow> (create_ref kw, True, ch)) = (ref1, c1, ch')"
    and rc: "reconcile e (kw_jsondata kw) (ref1, c1) = Inr (ref2, changed)"
    and r': "ref' = (let ref3 = (if existing = None
                     then setattr ref2 ''jsondata'' (PyDict (lgcode_step (kw_jsondata kw)))
                     else ref2)
                 in if changed then summary_strs ref3 else ref3)"
    by (rule merge_ref_cases)
  note k = kw_ok_facts[OF parse_record_ok[OF p]]
  have a: "ref_jsondata ref' = lgcode_step (kw_jsondata kw)" if "existing = None"
    using r' that by (simp add: Let_def ref_jsondata_summary_strs ref_jsondata_setattr)
  have b: "map_of (ref_jsondata ref')
             = map_of (ref_jsondata (old_ref existing)) ++ map_of (kw_jsondata kw)"
    if "existing \<noteq> None"
  proof -
    from that obtain ref0 where e: "existing = Some ref0" by auto
    have u': "fold update_field kw (ref0, False, ch) = (ref1, c1, ch')" using u e by simp
    have "ref_jsondata ref' = ref_jsondata ref1"
      using r' e ref_jsondata_attrs[OF reconcile_props(4)[OF rc]]
      by (simp add: Let_def ref_jsondata_summary_strs)
    then show ?thesis
      using fold_update_field_jsondata[OF k(1) k(6) k(7), of ref0 False ch] u' e
      by (simp add: old_ref_def)
  qed
  from p a b show ?thesis by blast
qed

text \<open>
  Claim C9, amended. After a record is merged, the side-bag of the reference holds the
  BibTeX key of the record under \<open>bibtexkey\<close> and, for exactly the keys of the field map
  with the empty target whose field in the record is not empty, the unescaped text of
  that field; every other key holds what the side-bag of the reference held before
  (nothing, when the reference is new), so a field that the field map does not list is
  not stored. The record never adds or changes a key that has a canonical target. The
  key \<open>lgcode\<close> is left out: a code of three characters is stored in brackets on the
  create path and as it is on the update path.
\<close>

theorem side_bag_contents:
  assumes "merge_ref e existing ch r pk = Inr (ref', changed, ch')" and "k \<noteq> ''lgcode''"
  shows "map_of (ref_jsondata ref') k =
           (if unmapped k \<and> populated r k then Some (rec_text e r k)
            else if k = ''bibtexkey'' then Some (rec_id r)
            else map_of (ref_jsondata (old_ref existing)) k)
       \<and> (has_target k \<longrightarrow>
            map_of (ref_jsondata ref') k = map_of (ref_jsondata (old_ref existing)) k)"
proof -
  from assms(1) obtain kw where p: "parse_record e r pk = Inr kw"
    and c: "existing = None \<Longrightarrow> ref_jsondata ref' = lgcode_step (kw_jsondata kw)"
    and u: "existing \<noteq> None \<Longrightarrow>
           map_of (ref_jsondata ref')
             = map_of (ref_jsondata (old_ref existing)) ++ map_of (kw_jsondata kw)"
    using merge_ref_side_bag[OF assms(1)] by blast
  note j = parse_record_jsondata[OF p, of k]
  have a: "map_of (ref_jsondata ref') k =
           (if unmapped k \<and> populated r k then Some (rec_text e r k)
            else if k = ''bibtexkey'' then Some (rec_id r)
            else map_of (ref_jsondata (old_ref existing)) k)"
  proof (cases "existing = None")
    case True
    then show ?thesis
      using c[OF True] j assms(2)
      by (simp add: lgcode_step_lookup unmapped_def old_ref_None_jsondata)
  next
    case False
    show ?thesis
      using u[OF False] j by (simp add: unmapped_def map_add_def)
  qed
  have b: "has_target k \<longrightarrow>
            map_of (ref_jsondata ref') k = map_of (ref_jsondata (old_ref existing)) k"
  proof
    assume h: "has_target k"
    then have "\<not> unmapped k" by (rule has_target_not_unmapped)
    moreover have "k \<noteq> ''bibtexkey''" using h bibtexkey_no_target by auto
    ultimately show "map_of (ref_jsondata ref') k = map_of (ref_jsondata (old_ref existing)) k"
      using a by simp
  qed
  from a b show ?thesis by blast
qed

lemma lg_rec_created:
  "\<exists>ref'. merge_ref example_env None [] lg_rec 7 = Inr (ref', True, [])
      \<and> ref_jsondata ref' = [(''bibtexkey'', ''doe1987''), (''glottolog_ref_id'', ''7''),
                               (''lgcode'', ''[abc]'')]"
  by (simp add: merge_ref_def lg_rec_parsed reconcile_eval update_eval example_env_sel)

lemma more_facts:
  "unmapped ''glottolog_ref_id''" "unmapped ''keywords''"
  "populated lg_rec ''glottolog_ref_id''" "rec_text example_env lg_rec ''glottolog_ref_id'' = ''7''"
  "populated keywords_rec ''keywords''" "rec_text example_env keywords_rec ''keywords'' = ''tone''"
proof -
  show "unmapped ''glottolog_ref_id''" "unmapped ''keywords''" by code_simp+
  show "populated lg_rec ''glottolog_ref_id''" "rec_text example_env lg_rec ''glottolog_ref_id'' = ''7''"
    by (simp_all add: populated_def rec_get_def rec_text_def get_default_def lg_rec_def example_env_sel)
  show "populated keywords_rec ''keywords''" "rec_text example_env keywords_rec ''keywords'' = ''tone''"
    by (simp_all add: populated_def rec_get_def rec_text_def get_default_def keywords_rec_def
        pages_rec_def example_env_sel)
qed

theorem side_bag_contents_witness:
  "\<exists>ref1 ref2.
      merge_ref example_env None [] lg_rec 7 = Inr (ref1, True, [])
      \<and> map_of (ref_jsondata ref1) ''glottolog_ref_id'' = Some ''7''
      \<and> map_of (ref_jsondata ref1) ''bibtexkey'' = Some ''doe1987''
      \<and> has_target ''title''
      \<and> map_of (ref_jsondata ref1) ''title'' = None
      \<and> map_of (ref_jsondata ref1) ''foo'' = None
      \<and> merge_ref example_env (Some created_ref) [] keywords_rec 7 = Inr (ref2, False, [])
      \<and> map_of (ref_jsondata ref2) ''keywords'' = Some ''tone''
      \<and> map_of (ref_jsondata ref2) ''title'' = map_of (ref_jsondata created_ref) ''title''"
proof -
  from lg_rec_created obtain ref1 where
    m1: "merge_ref example_env None [] lg_rec 7 = Inr (ref1, True, [])" by blast
  from keywords_rec_merged obtain ref2 where
    m2: "merge_ref example_env (Some created_ref) [] keywords_rec 7 = Inr (ref2, False, [])"
    by blast
  note s1 = side_bag_contents[OF m1] and s2 = side_bag_contents[OF m2]
  have a: "map_of (ref_jsondata ref1) ''glottolog_ref_id'' = Some ''7''"
    using s1[of "''glottolog_ref_id''"] by (simp add: more_facts)
  have b: "map_of (ref_jsondata ref1) ''bibtexkey'' = Some ''doe1987''"
    using s1[of "''bibtexkey''"] by (simp add: unmapped_facts lg_rec_facts)
  have c: "map_of (ref_jsondata ref1) ''title'' = None"
    using s1[of "''title''"] by (simp add: unmapped_facts old_ref_None_jsondata)
  have d: "map_of (ref_jsondata ref1) ''foo'' = None"
    using s1[of "''foo''"] by (simp add: unmapped_facts old_ref_None_jsondata)
  have e: "map_of (ref_jsondata ref2) ''keywords'' = Some ''tone''"
    using s2[of "''keywords''"] by (simp add: more_facts)
  have f: "map_of (ref_jsondata ref2) ''title'' = map_of (ref_jsondata created_ref) ''title''"
    using s2[of "''title''"] by (simp add: unmapped_facts old_ref_def)
  from m1 m2 a b c d e f unmapped_facts(6) show ?thesis by blast
qed

text \<open>
  Claim C9, as stated, fails: in the reference created from the record below, the
  side-bag does not hold the field \<open>foo\<close>, which is populated and has no canonical
  target, and it holds \<open>bibtexkey\<close>, which is no field of the record.
\<close>

theorem side_bag_differs_from_unmapped_fields:
  "\<exists>ref'. merge_ref example_env None [] lg_rec 7 = Inr (ref', True, [])
      \<and> populated lg_rec ''foo'' \<and> \<not> has_target ''foo''
      \<and> map_of (ref_jsondata ref') ''foo'' = None
      \<and> \<not> populated lg_rec ''bibtexkey''
      \<and> map_of (ref_jsondata ref') ''bibtexkey'' = Some ''doe1987''"
proof -
  from lg_rec_created obtain ref' where
    m: "merge_ref example_env None [] lg_rec 7 = Inr (ref', True, [])"
    and j: "ref_jsondata ref' = [(''bibtexkey'', ''doe1987''), (''glottolog_ref_id'', ''7''),
                               (''lgcode'', ''[abc]'')]" by blast
  have "map_of (ref_jsondata ref') ''foo'' = None"
    "map_of (ref_jsondata ref') ''bibtexkey'' = Some ''doe1987''"
    unfolding j by simp_all
  with m lg_rec_facts(1,2) unmapped_facts(5) show ?thesis by blast
qed

section \<open>Running the import a second time\<close>

text \<open>
  After a record was merged, its parsed fields agree with the reference: on the update
  path every differing field was assigned, on the create path the reference was built
  from them. Reconciliation succeeds for a reference whenever it succeeds for another,
  since only the names of the side-bag are looked up; and appending the desired members a
  second time appends nothing.
\<close>

lemma agrees_cong_fields:
  assumes "\<forall>kv \<in> set kw. fst kv \<noteq> ''jsondata'' \<longrightarrow> getattr r' (fst kv) = getattr r (fst kv)"
  shows "agrees kw r' = agrees kw r"
proof -
  have "differs r' kv = differs r kv" if "kv \<in> set kw" for kv
  proof (cases "fst kv = ''jsondata''")
    case True
    then show ?thesis by (simp add: differs_def)
  next
    case False
    with assms that have "getattr r' (fst kv) = getattr r (fst kv)" by blast
    then show ?thesis by (simp add: differs_def)
  qed
  then show ?thesis by (simp add: agrees_def list_all_iff)
qed

lemma create_ref_agrees:
  assumes "kw_ok kw"
  shows "agrees kw (create_ref kw)"
proof -
  note k = kw_ok_facts[OF assms]
  have "\<not> differs (create_ref kw) kv" if kv: "kv \<in> set kw" for kv
  proof -
    have "fst kv \<noteq> ''name''" using kv k(3) by force
    moreover have "map_of kw (fst kv) = Some (snd kv)" using k(1) kv by simp
    ultimately have "getattr (create_ref kw) (fst kv) = snd kv"
      by (simp add: create_ref_def getattr_def)
    then show ?thesis by (simp add: differs_def py_ne_refl)
  qed
  then show ?thesis by (simp add: agrees_def list_all_iff)
qed

lemma providers_fold_succeeds:
  assumes "fold_err (providers_step e) ns (ps, c) = Inr pc"
  shows "\<exists>pc'. fold_err (providers_step e) ns (qs, d) = Inr pc'"
  using assms
proof (induction ns arbitrary: ps c qs d pc)
  case Nil
  then show ?case by simp
next
  case (Cons n ns)
  from Cons.prems obtain obj where obj: "provider_map e (slug e n) = Some obj"
    by (auto simp: providers_step_def split: option.splits)
  have s1: "providers_step e n (ps, c)
              = Inr (fst (append_entity ps obj), c \<or> snd (append_entity ps obj))"
    and s2: "providers_step e n (qs, d)
              = Inr (fst (append_entity qs obj), d \<or> snd (append_entity qs obj))"
    using obj by (simp_all add: providers_step_def)
  from Cons.prems s1 have "fold_err (providers_step e) ns
      (fst (append_entity ps obj), c \<or> snd (append_entity ps obj)) = Inr pc" by simp
  from Cons.IH[OF this] show ?case using s2 by simp
qed

lemma reconcile_succeeds:
  assumes "reconcile e jd (r, c) = Inr rc"
  shows "\<exists>rc'. reconcile e jd (r', c') = Inr rc'"
proof -
  from assms obtain ms where ms: "lookup_all (macroarea_map e) (tag_names (get_default jd ''macro_area'' [])) = Inr ms"
    by (auto simp: reconcile_def split: sum.splits)
  obtain mcol ma mr where um: "update_relationship (macroareas r) ms = (mcol, ma, mr)"
    by (cases "update_relationship (macroareas r) ms") auto
  from assms ms um obtain pc where
    pf: "fold_err (providers_step e) (tag_names (get_default jd ''src'' []))
           (providers r, c \<or> ma \<noteq> [] \<or> mr) = Inr pc"
    by (auto simp: reconcile_def split: sum.splits)
  from assms ms um pf obtain ds where ds: "lookup_all (doctype_map e) (finditer_names (get_default jd ''hhtype'' [])) = Inr ds"
    by (cases pc) (auto simp: reconcile_def split: sum.splits)
  obtain mcol' ma' mr' where um': "update_relationship (macroareas r') ms = (mcol', ma', mr')"
    by (cases "update_relationship (macroareas r') ms") auto
  from providers_fold_succeeds[OF pf] obtain pcol' c1' where
    pf': "fold_err (providers_step e) (tag_names (get_default jd ''src'' []))
           (providers r', c' \<or> ma' \<noteq> [] \<or> mr') = Inr (pcol', c1')"
    by (metis surj_pair)
  obtain dcol' da' dr' where ud': "update_relationship (doctypes r') ds = (dcol', da', dr')"
    by (cases "update_relationship (doctypes r') ds") auto
  have "reconcile e jd (r', c') = Inr (r'\<lparr>macroareas := mcol', providers := pcol', doctypes := dcol'\<rparr>,
                                     c1' \<or> da' \<noteq> [] \<or> dr')"
    by (simp only: reconcile_def ms um' pf' ds ud' fst_conv snd_conv sum.case prod.case)
  then show ?thesis by blast
qed

lemma appended_only_again:
  assumes "appended_only old desired mid" and "appended_only mid desired new"
  shows "new = mid" and "set mid \<subseteq> set desired \<longleftrightarrow> set old \<subseteq> set desired"
proof -
  from assms(1) obtain a where a: "mid = old @ a" "set a = set desired - set old"
    by (auto simp: appended_only_def)
  from assms(2) obtain b where b: "new = mid @ b" "set b = set desired - set mid"
    by (auto simp: appended_only_def)
  have "set b = {}" using a b(2) by auto
  then show "new = mid" using b(1) by simp
  show "set mid \<subseteq> set desired \<longleftrightarrow> set old \<subseteq> set desired" using a by auto
qed

lemma rerun_merge:
  assumes "merge_ref e existing ch r pk = Inr (ref1, c1, ch1)"
  shows "\<exists>kw ref2 c2. parse_record e r pk = Inr kw
           \<and> merge_ref e (Some ref1) ch2 r pk = Inr (ref2, c2, ch2)
           \<and> (c2 \<longleftrightarrow> lingering e (kw_jsondata kw) (old_ref existing))"
proof -
  from assms obtain kw refa ca refb where p: "parse_record e r pk = Inr kw"
    and u: "(case existing of Some ref0 \<Rightarrow> fold update_field kw (ref0, False, ch)
            | None \<Rightarrow> (create_ref kw, True, ch)) = (refa, ca, ch1)"
    and rc: "reconcile e (kw_jsondata kw) (refa, ca) = Inr (refb, c1)"
    and r1: "ref1 = (let ref3 = (if existing = None
                     then setattr refb ''jsondata'' (PyDict (lgcode_step (kw_jsondata kw)))
                     else refb)
                 in if c1 then summary_strs ref3 else ref3)"
    by (rule merge_ref_cases)
  note ok = parse_record_ok[OF p]
  note k = kw_ok_facts[OF ok]
  note rp = reconcile_props[OF rc]
  have ola: "macroareas refa = macroareas (old_ref existing)"
    "doctypes refa = doctypes (old_ref existing)"
    using u fold_update_field_collections[of kw "(the existing, False, ch)"]
    by (auto simp: old_ref_def create_ref_def split: option.splits)
  have col1: "macroareas ref1 = macroareas refb" "providers ref1 = providers refb"
    "doctypes ref1 = doctypes refb"
    using r1 by (auto simp: Let_def summary_strs_collections setattr_def)
  have aga: "agrees kw refa"
  proof (cases existing)
    case None
    then show ?thesis using u create_ref_agrees[OF ok] by simp
  next
    case (Some ref0)
    then show ?thesis
      using u fold_update_field_result_agrees[OF k(1,2), of ref0 False ch] by simp
  qed
  have "\<forall>kv \<in> set kw. fst kv \<noteq> ''jsondata'' \<longrightarrow> getattr ref1 (fst kv) = getattr refa (fst kv)"
  proof (intro ballI impI)
    fix kv assume kv: "kv \<in> set kw" and j: "fst kv \<noteq> ''jsondata''"
    have n: "fst kv \<noteq> ''doctypes_str''" "fst kv \<noteq> ''providers_str''"
      using kv k(4,5) by force+
    have "getattr ref1 (fst kv) = getattr refb (fst kv)"
      using r1 n j by (auto simp: Let_def getattr_summary_strs getattr_setattr)
    then show "getattr ref1 (fst kv) = getattr refa (fst kv)"
      using getattr_attrs[OF rp(4)] by simp
  qed
  from agrees_cong_fields[OF this] aga have ag1: "agrees kw ref1" by simp
  obtain refc where f2: "fold update_field kw (ref1, False, ch2) = (refc, False, ch2)"
    using fold_update_field_agrees[OF ag1 k(2), of False ch2]
    by (cases "fold update_field kw (ref1, False, ch2)") auto
  have colc: "macroareas refc = macroareas refb" "providers refc = providers refb"
    "doctypes refc = doctypes refb"
    using fold_update_field_collections[of kw "(ref1, False, ch2)"] f2 col1 by simp_all
  from reconcile_succeeds[OF rc] obtain refd c2 where
    rc2: "reconcile e (kw_jsondata kw) (refc, False) = Inr (refd, c2)"
    by (metis surj_pair)
  note rp2 = reconcile_props[OF rc2]
  have m: "macroareas refd = macroareas refc"
    "set (macroareas refc) \<subseteq> set (desired_macroareas e (kw_jsondata kw))
       \<longleftrightarrow> set (macroareas (old_ref existing)) \<subseteq> set (desired_macroareas e (kw_jsondata kw))"
    using appended_only_again[OF rp(1)[unfolded ola] rp2(1)[unfolded colc]] colc by simp_all
  have d: "doctypes refd = doctypes refc"
    "set (doctypes refc) \<subseteq> set (desired_doctypes e (kw_jsondata kw))
       \<longleftrightarrow> set (doctypes (old_ref existing)) \<subseteq> set (desired_doctypes e (kw_jsondata kw))"
    using appended_only_again[OF rp(3)[unfolded ola] rp2(3)[unfolded colc]] colc by simp_all
  have pr: "providers refd = providers refc"
    using appended_only_again(1)[OF rp(2) rp2(2)[unfolded colc]] colc by simp
  have c2: "c2 \<longleftrightarrow> lingering e (kw_jsondata kw) (old_ref existing)"
    using rp2(5) m d pr by (simp add: lingering_def)
  have "merge_ref e (Some ref1) ch2 r pk
          = Inr (if c2 then summary_strs refd else refd, c2, ch2)"
    by (simp add: merge_ref_def p f2 rc2)
  with p c2 show ?thesis by blast
qed

lemma pages_rec_id:
  "\<not> length (rec_keys pages_rec) < 6" "populated pages_rec ''glottolog_ref_id''"
  "py_int (get_default (rec_fields pages_rec) ''glottolog_ref_id'' []) = Some 7"
  by (simp_all add: rec_keys_def pages_rec_def populated_def rec_get_def
      get_default_def py_int_def strip_def is_space_def is_digit_def digits_val_def digit_val_def)

lemma tagged_ref_merged:
  "merge_ref example_env (Some tagged_ref) [] pages_rec 7 = Inr (retagged_ref, True, [])"
  by (simp add: merge_ref_def pages_rec_parsed reconcile_eval update_eval example_env_sel
      created_ref_def tagged_ref_def retagged_ref_def)

lemma retagged_ref_merged:
  "merge_ref example_env (Some retagged_ref) [] pages_rec 7 = Inr (retagged_ref, True, [])"
  by (simp add: merge_ref_def pages_rec_parsed reconcile_eval update_eval example_env_sel
      created_ref_def tagged_ref_def retagged_ref_def)

text \<open>
  Claim C2, amended. When a record was processed without an error, processing the
  identical record again, in any state that has the references of the state the first run
  produced and knows at least the ids known before, succeeds and leaves the change log
  as it is. The change counter, which is incremented exactly when the flag \<open>changed\<close> is
  set, keeps its value as well, provided that the record met no lingering members in the
  starting state: every macro-area and doctype that its reference had there is among
  those the record names.
\<close>

theorem second_run_adds_nothing:
  assumes "process_record e r st = Inr st1"
    and "refs st' = refs st1"
    and "set (known_ids st) \<subseteq> set (known_ids st')"
  shows "\<exists>st2. process_record e r st' = Inr st2
           \<and> changes st2 = changes st'
           \<and> (\<not> lingering_members e r st \<longrightarrow> count st2 = count st')"
proof (cases "length (rec_keys r) < 6")
  case True
  then show ?thesis by (simp add: process_record_def)
next
  case False
  note long = this
  from assms(1) long have pop: "populated r ''glottolog_ref_id''"
    by (auto simp: process_record_def split: if_splits)
  from assms(1) long pop obtain pk where
    pk: "py_int (get_default (rec_fields r) ''glottolog_ref_id'' []) = Some pk"
    by (auto simp: process_record_def split: option.splits)
  show ?thesis
  proof (cases "mode e \<noteq> ''update'' \<and> pk \<in> set (known_ids st')")
    case True
    then show ?thesis using long pop pk by (simp add: process_record_def)
  next
    case False
    note merged2 = this
    with assms(3) have merged1: "\<not> (mode e \<noteq> ''update'' \<and> pk \<in> set (known_ids st))" by blast
    from assms(1) long pop pk merged1 obtain ref1 c1 ch1 where
      m1: "merge_ref e (map_of (refs st) pk) (changes st) r pk = Inr (ref1, c1, ch1)"
      and st1: "st1 = st\<lparr>refs := AList.update pk ref1 (refs st),
                          count := (if c1 then count st + 1 else count st),
                          changes := ch1\<rparr>"
      by (auto simp: process_record_def split: sum.splits if_splits)
    have look: "map_of (refs st') pk = Some ref1"
      using assms(2) st1 by (simp add: update_conv')
    from rerun_merge[OF m1, of "changes st'"] obtain kw ref2 c2 where
      p: "parse_record e r pk = Inr kw"
      and m2: "merge_ref e (Some ref1) (changes st') r pk = Inr (ref2, c2, changes st')"
      and c2: "c2 \<longleftrightarrow> lingering e (kw_jsondata kw) (old_ref (map_of (refs st) pk))"
      by blast
    have l: "lingering_members e r st = c2"
      by (simp add: lingering_members_def pk p c2)
    have "process_record e r st'
            = Inr (st'\<lparr>refs := AList.update pk ref2 (refs st'),
                       count := (if c2 then count st' + 1 else count st'),
                       changes := changes st'\<rparr>)"
      using long pop pk merged2 look m2 by (auto simp: process_record_def)
    then show ?thesis using l by simp
  qed
qed

theorem second_run_adds_nothing_witness:
  "process_record example_env pages_rec start_state
      = Inr (start_state\<lparr>refs := [(7, created_ref)], count := 1\<rparr>)
   \<and> set (known_ids start_state) \<subseteq> set [7]
   \<and> \<not> lingering_members example_env pages_rec start_state
   \<and> (\<exists>st2. process_record example_env pages_rec
                (start_state\<lparr>refs := [(7, created_ref)], known_ids := [7]\<rparr>) = Inr st2
            \<and> changes st2 = [] \<and> count st2 = 0)"
proof -
  have f: "process_record example_env pages_rec start_state
             = Inr (start_state\<lparr>refs := [(7, created_ref)], count := 1\<rparr>)"
    by (simp add: process_record_def pages_rec_id pages_rec_created example_env_sel start_state_def)
  have k: "set (known_ids start_state) \<subseteq> set [7]" by (simp add: start_state_def)
  have n: "\<not> lingering_members example_env pages_rec start_state"
    by (simp add: lingering_members_def lingering_def pages_rec_id pages_rec_parsed old_ref_def
        start_state_def)
  from second_run_adds_nothing[OF f, of "start_state\<lparr>refs := [(7, created_ref)], known_ids := [7]\<rparr>"] n
  show ?thesis using f k by (simp add: start_state_def)
qed

text \<open>
  Claim C2, as stated, fails: the reference has the doctype \<open>grammar\<close>, which the record
  does not name. Reconciliation never removes it and reports it on every run, so the
  second run on the state that the first run produced sets the flag and increments the
  counter again, although nothing is left to change.
\<close>

theorem rerun_with_lingering_doctype:
  "\<exists>st1 st2.
      main example_env [pages_rec] [(7, tagged_ref)] = Inr st1
      \<and> refs st1 = [(7, retagged_ref)] \<and> count st1 = 1
      \<and> merge_ref example_env (Some retagged_ref) [] pages_rec 7 = Inr (retagged_ref, True, [])
      \<and> main example_env [pages_rec] (refs st1) = Inr st2
      \<and> refs st2 = refs st1 \<and> count st2 = 1 \<and> changes st2 = []"
proof -
  have 1: "main example_env [pages_rec] [(7, tagged_ref)]
          = Inr \<lparr>refs = [(7, retagged_ref)], known_ids = [7], count = 1, skipped = 0, changes = []\<rparr>"
    by (simp add: main_def process_record_def pages_rec_id tagged_ref_merged example_env_sel)
  have 2: "main example_env [pages_rec] [(7, retagged_ref)]
          = Inr \<lparr>refs = [(7, retagged_ref)], known_ids = [7], count = 1, skipped = 0, changes = []\<rparr>"
    by (simp add: main_def process_record_def pages_rec_id retagged_ref_merged example_env_sel)
  from 1 2 retagged_ref_merged show ?thesis by simp
qed

end
